theory Spec2Isabelle
  imports Main "HOL-Library.AList"
begin

section \<open>JavaScript values\<close>

text \<open>
  The values that travel through the storage backends: what a caller passes to
  \<open>setItem\<close>, what the structured clone of \<open>indexedDB\<close> keeps in a record, and what
  \<open>JSON.parse\<close> builds. Numbers are the integers; an object is the list of its own
  properties in their own order.
\<close>

datatype jsval =
    JUndefined
  | JNull
  | JBool bool
  | JNum int
  | JStr string
  | JArr "jsval list"
  | JObj "(string \<times> jsval) list"

text \<open>What a failing operation carries: \<open>new Error(message)\<close>, a \<open>TypeError\<close> raised by
  the language, or the \<open>DOMException\<close> (name, message) of a failed request.\<close>

datatype error =
    Error string
  | TypeError string
  | DOMException string string

fun typeof :: "jsval \<Rightarrow> string" where
  "typeof JUndefined = ''undefined''"
| "typeof JNull = ''object''"
| "typeof (JBool b) = ''boolean''"
| "typeof (JNum n) = ''number''"
| "typeof (JStr s) = ''string''"
| "typeof (JArr xs) = ''object''"
| "typeof (JObj kvs) = ''object''"

text \<open>\<open>!!v\<close>: the values JavaScript takes for false in a condition.\<close>

fun truthy :: "jsval \<Rightarrow> bool" where
  "truthy JUndefined = False"
| "truthy JNull = False"
| "truthy (JBool b) = b"
| "truthy (JNum n) = (n \<noteq> 0)"
| "truthy (JStr s) = (s \<noteq> [])"
| "truthy (JArr xs) = True"
| "truthy (JObj kvs) = True"

text \<open>\<open>v == null\<close>, which \<open>undefined\<close> satisfies too.\<close>

definition nullish :: "jsval \<Rightarrow> bool" where
  "nullish v = (v = JNull \<or> v = JUndefined)"

definition digit_char :: "nat \<Rightarrow> char" where
  "digit_char d = char_of (48 + d)"

function nat_digits :: "nat \<Rightarrow> string" where
  "nat_digits n = (if n < 10 then [digit_char n] else nat_digits (n div 10) @ [digit_char (n mod 10)])"
  by pat_completeness auto
termination
  by (relation "measure id") auto

declare nat_digits.simps [simp del]

text \<open>\<open>key in v\<close>. On a primitive the operator raises a \<open>TypeError\<close> (\<open>None\<close>). The
  own properties of an array are its indices and \<open>length\<close>; the prototypes of plain
  objects and arrays add method names only.\<close>

fun in_operator :: "string \<Rightarrow> jsval \<Rightarrow> bool option" where
  "in_operator k (JObj kvs) = Some (k \<in> set (map fst kvs))"
| "in_operator k (JArr xs) = Some (k = ''length'' \<or> k \<in> set (map nat_digits [0..<length xs]))"
| "in_operator k v = None"

text \<open>\<open>v[key]\<close> on an object: the property, or \<open>undefined\<close>.\<close>

fun property :: "jsval \<Rightarrow> string \<Rightarrow> jsval" where
  "property (JObj kvs) k = (case map_of kvs k of Some v \<Rightarrow> v | None \<Rightarrow> JUndefined)"
| "property (JArr xs) k = (if k = ''length'' then JNum (int (length xs)) else
     (case filter (\<lambda>i. nat_digits i = k) [0..<length xs] of i # _ \<Rightarrow> xs ! i | [] \<Rightarrow> JUndefined))"
| "property v k = JUndefined"


section \<open>\<open>JSON.stringify\<close> and \<open>JSON.parse\<close>\<close>

text \<open>
  The two platform functions the \<open>localStorage\<close> backend calls. \<open>JSON_stringify\<close>
  gives the compact text JavaScript emits (no white space; \<open>undefined\<close> is dropped from
  an object and printed as \<open>null\<close> in an array) and \<open>None\<close> where JavaScript returns
  \<open>undefined\<close>. \<open>JSON_parse\<close> is a recursive-descent reader for the JSON grammar over
  integers; \<open>None\<close> is the \<open>SyntaxError\<close> it throws. A number with a fraction or an
  exponent, and an escape beyond one byte, are outside the values above and are read
  as a syntax error.
\<close>

definition hex_char :: "nat \<Rightarrow> char" where
  "hex_char d = (if d < 10 then char_of (48 + d) else char_of (87 + d))"

definition escape_char :: "char \<Rightarrow> string" where
  "escape_char c =
    (if c = CHR 0x22 then [CHR 0x5C, CHR 0x22]
     else if c = CHR 0x5C then [CHR 0x5C, CHR 0x5C]
     else if c = CHR 0x08 then [CHR 0x5C, CHR ''b'']
     else if c = CHR 0x0C then [CHR 0x5C, CHR ''f'']
     else if c = CHR 0x0A then [CHR 0x5C, CHR ''n'']
     else if c = CHR 0x0D then [CHR 0x5C, CHR ''r'']
     else if c = CHR 0x09 then [CHR 0x5C, CHR ''t'']
     else if (of_char c :: nat) < 32 then
       [CHR 0x5C, CHR ''u'', CHR ''0'', CHR ''0'',
        hex_char ((of_char c :: nat) div 16), hex_char ((of_char c :: nat) mod 16)]
     else [c])"

definition quote :: "string \<Rightarrow> string" where
  "quote s = CHR 0x22 # concat (map escape_char s) @ [CHR 0x22]"

fun ser :: "jsval \<Rightarrow> string"
  and ser_elements :: "jsval list \<Rightarrow> string"
  and ser_members :: "(string \<times> jsval) list \<Rightarrow> string" where
  "ser JUndefined = ''null''"
| "ser JNull = ''null''"
| "ser (JBool b) = (if b then ''true'' else ''false'')"
| "ser (JNum n) = (if n < 0 then CHR ''-'' # nat_digits (nat (- n)) else nat_digits (nat n))"
| "ser (JStr s) = quote s"
| "ser (JArr xs) = ''['' @ ser_elements xs @ '']''"
| "ser (JObj kvs) = ''{'' @ ser_members kvs @ ''}''"
| "ser_elements [] = []"
| "ser_elements (x # xs) = ser x @ (if xs = [] then [] else CHR '','' # ser_elements xs)"
| "ser_members [] = []"
| "ser_members ((k, v) # kvs) =
     (if v = JUndefined then ser_members kvs
      else quote k @ CHR '':'' # ser v @
        (if ser_members kvs = [] then [] else CHR '','' # ser_members kvs))"

definition JSON_stringify :: "jsval \<Rightarrow> string option" where
  "JSON_stringify v = (if v = JUndefined then None else Some (ser v))"

definition is_ws :: "char \<Rightarrow> bool" where
  "is_ws c = (c = CHR 0x20 \<or> c = CHR 0x09 \<or> c = CHR 0x0A \<or> c = CHR 0x0D)"

definition skip_ws :: "string \<Rightarrow> string" where
  "skip_ws s = dropWhile is_ws s"

definition is_digit :: "char \<Rightarrow> bool" where
  "is_digit c = (48 \<le> (of_char c :: nat) \<and> (of_char c :: nat) \<le> 57)"

definition digit_val :: "char \<Rightarrow> nat" where
  "digit_val c = of_char c - 48"

definition hex_val :: "char \<Rightarrow> nat option" where
  "hex_val c =
    (let n = (of_char c :: nat) in
     if 48 \<le> n \<and> n \<le> 57 then Some (n - 48)
     else if 97 \<le> n \<and> n \<le> 102 then Some (n - 87)
     else if 65 \<le> n \<and> n \<le> 70 then Some (n - 55)
     else None)"

definition hex4 :: "char \<Rightarrow> char \<Rightarrow> char \<Rightarrow> char \<Rightarrow> nat option" where
  "hex4 a b c d =
    (case (hex_val a, hex_val b, hex_val c, hex_val d) of
       (Some w, Some x, Some y, Some z) \<Rightarrow> Some (((w * 16 + x) * 16 + y) * 16 + z)
     | _ \<Rightarrow> None)"

definition unescape :: "char \<Rightarrow> char option" where
  "unescape e =
    (if e = CHR 0x22 then Some (CHR 0x22)
     else if e = CHR 0x5C then Some (CHR 0x5C)
     else if e = CHR ''/'' then Some (CHR ''/'')
     else if e = CHR ''b'' then Some (CHR 0x08)
     else if e = CHR ''f'' then Some (CHR 0x0C)
     else if e = CHR ''n'' then Some (CHR 0x0A)
     else if e = CHR ''r'' then Some (CHR 0x0D)
     else if e = CHR ''t'' then Some (CHR 0x09)
     else None)"

text \<open>The characters of a string literal, after its opening quote, up to the closing
  one.\<close>

fun parse_chars :: "string \<Rightarrow> (string \<times> string) option" where
  "parse_chars [] = None"
| "parse_chars (c # cs) =
    (if c = CHR 0x22 then Some ([], cs)
     else if c = CHR 0x5C then
       (case cs of
          [] \<Rightarrow> None
        | e # r \<Rightarrow>
            if e = CHR ''u'' then
              (case r of
                 h1 # h2 # h3 # h4 # r' \<Rightarrow>
                   (case hex4 h1 h2 h3 h4 of
                      None \<Rightarrow> None
                    | Some n \<Rightarrow>
                        if n < 256 then map_option (apfst ((#) (char_of n))) (parse_chars r')
                        else None)
               | _ \<Rightarrow> None)
            else
              (case unescape e of
                 None \<Rightarrow> None
               | Some ch \<Rightarrow> map_option (apfst ((#) ch)) (parse_chars r)))
     else if (of_char c :: nat) < 32 then None
     else map_option (apfst ((#) c)) (parse_chars cs))"

definition parse_nat :: "string \<Rightarrow> (nat \<times> string) option" where
  "parse_nat s =
    (let ds = takeWhile is_digit s; r = dropWhile is_digit s in
     if ds = [] then None
     else if hd ds = CHR ''0'' \<and> 1 < length ds then None
     else Some (foldl (\<lambda>a c. 10 * a + digit_val c) 0 ds, r))"

definition parse_number :: "string \<Rightarrow> (jsval \<times> string) option" where
  "parse_number s =
    (case s of
       [] \<Rightarrow> None
     | c # r \<Rightarrow>
         if c = CHR ''-'' then map_option (apfst (\<lambda>n. JNum (- int n))) (parse_nat r)
         else map_option (apfst (\<lambda>n. JNum (int n))) (parse_nat s))"

definition expect :: "string \<Rightarrow> string \<Rightarrow> string option" where
  "expect p s = (if take (length p) s = p then Some (drop (length p) s) else None)"

text \<open>A later member of an object text replaces an earlier one of the same name, at the
  earlier one's place.\<close>

definition members_object :: "(string \<times> jsval) list \<Rightarrow> jsval" where
  "members_object kvs = JObj (foldl (\<lambda>acc kv. AList.update (fst kv) (snd kv) acc) [] kvs)"

text \<open>The first argument bounds the number of nested calls; \<open>JSON_parse\<close> gives one
  more than the length of the text, which no text exhausts.\<close>

fun parse_value :: "nat \<Rightarrow> string \<Rightarrow> (jsval \<times> string) option"
  and parse_elements :: "nat \<Rightarrow> string \<Rightarrow> (jsval list \<times> string) option"
  and parse_members :: "nat \<Rightarrow> string \<Rightarrow> ((string \<times> jsval) list \<times> string) option" where
  "parse_value 0 s = None"
| "parse_value (Suc n) s =
    (case skip_ws s of
       [] \<Rightarrow> None
     | c # cs \<Rightarrow>
         if c = CHR ''n'' then map_option (Pair JNull) (expect ''ull'' cs)
         else if c = CHR ''t'' then map_option (Pair (JBool True)) (expect ''rue'' cs)
         else if c = CHR ''f'' then map_option (Pair (JBool False)) (expect ''alse'' cs)
         else if c = CHR 0x22 then map_option (apfst JStr) (parse_chars cs)
         else if c = CHR ''['' then
           (case skip_ws cs of
              [] \<Rightarrow> None
            | d # ds \<Rightarrow>
                if d = CHR '']'' then Some (JArr [], ds)
                else map_option (apfst JArr) (parse_elements n cs))
         else if c = CHR ''{'' then
           (case skip_ws cs of
              [] \<Rightarrow> None
            | d # ds \<Rightarrow>
                if d = CHR ''}'' then Some (JObj [], ds)
                else map_option (apfst members_object) (parse_members n cs))
         else parse_number (c # cs))"
| "parse_elements 0 s = None"
| "parse_elements (Suc n) s =
    (case parse_value n s of
       None \<Rightarrow> None
     | Some (v, r) \<Rightarrow>
         (case skip_ws r of
            [] \<Rightarrow> None
          | c # cs \<Rightarrow>
              if c = CHR '','' then map_option (apfst ((#) v)) (parse_elements n cs)
              else if c = CHR '']'' then Some ([v], cs)
              else None))"
| "parse_members 0 s = None"
| "parse_members (Suc n) s =
    (case skip_ws s of
       [] \<Rightarrow> None
     | q # cs \<Rightarrow>
         if q \<noteq> CHR 0x22 then None
         else
           (case parse_chars cs of
              None \<Rightarrow> None
            | Some (k, r) \<Rightarrow>
                (case skip_ws r of
                   [] \<Rightarrow> None
                 | c # r1 \<Rightarrow>
                     if c \<noteq> CHR '':'' then None
                     else
                       (case parse_value n r1 of
                          None \<Rightarrow> None
                        | Some (v, r2) \<Rightarrow>
                            (case skip_ws r2 of
                               [] \<Rightarrow> None
                             | d # r3 \<Rightarrow>
                                 if d = CHR '','' then
                                   map_option (apfst ((#) (k, v))) (parse_members n r3)
                                 else if d = CHR ''}'' then Some ([(k, v)], r3)
                                 else None)))))"

definition JSON_parse :: "string \<Rightarrow> jsval option" where
  "JSON_parse s =
    (case parse_value (Suc (length s)) s of
       None \<Rightarrow> None
     | Some (v, r) \<Rightarrow> if skip_ws r = [] then Some v else None)"


text \<open>Two notions for reasoning about the reader: a remainder that cannot prolong a
  number, and the characters the text of a value can begin with.\<close>

definition ends_number :: "string \<Rightarrow> bool" where
  "ends_number rest = (case rest of [] \<Rightarrow> True | c # cs \<Rightarrow> \<not> is_digit c)"

definition starts_value :: "char \<Rightarrow> bool" where
  "starts_value c = (c = CHR ''n'' \<or> c = CHR ''t'' \<or> c = CHR ''f'' \<or> c = CHR 0x22 \<or> c = CHR ''[''
     \<or> c = CHR ''{'' \<or> c = CHR ''-'' \<or> is_digit c)"

text \<open>The values that survive \<open>JSON.stringify\<close>: no \<open>undefined\<close> anywhere inside, no
  two properties of an object under one name, and every number an integer that a
  double holds exactly (up to \<open>Number.MAX_SAFE_INTEGER\<close> in magnitude), which
  \<open>JSON.stringify\<close> prints in plain digits.\<close>

fun serializable :: "jsval \<Rightarrow> bool"
  and serializable_elements :: "jsval list \<Rightarrow> bool"
  and serializable_members :: "(string \<times> jsval) list \<Rightarrow> bool" where
  "serializable JUndefined = False"
| "serializable JNull = True"
| "serializable (JBool b) = True"
| "serializable (JNum n) = (- 9007199254740991 \<le> n \<and> n \<le> 9007199254740991)"
| "serializable (JStr s) = True"
| "serializable (JArr xs) = serializable_elements xs"
| "serializable (JObj kvs) = (distinct (map fst kvs) \<and> serializable_members kvs)"
| "serializable_elements [] = True"
| "serializable_elements (x # xs) = (serializable x \<and> serializable_elements xs)"
| "serializable_members [] = True"
| "serializable_members ((k, v) # kvs) = (serializable v \<and> serializable_members kvs)"

section \<open>Observables and the object store of \<open>indexedDB\<close>\<close>

text \<open>What a subscriber has been told: one value (the observable then completes), an
  error, or nothing so far.\<close>

datatype 'a outcome = Emits 'a | Errors error | Pending

type_synonym object_store = "(string \<times> jsval) list"

text \<open>The requests of \<open>IDBObjectStore\<close> the backend places. A request ends in a success
  event carrying \<open>request.result\<close>, or in an error event carrying \<open>request.error\<close>:
  \<open>add\<close> on a key that exists is a \<open>ConstraintError\<close>. \<open>OpenCursor\<close> stands for the whole
  walk: its result lists what the successive success events carry, a cursor per record
  and \<open>null\<close> at the end.\<close>

datatype request =
    Get string
  | GetKey string
  | Add jsval string
  | Put jsval string
  | Delete string
  | Clear
  | Count
  | GetAllKeys
  | OpenCursor

fun perform :: "request \<Rightarrow> object_store \<Rightarrow> (error + jsval) \<times> object_store" where
  "perform (Get k) st = (Inr (case map_of st k of Some r \<Rightarrow> r | None \<Rightarrow> JUndefined), st)"
| "perform (GetKey k) st = (Inr (if k \<in> set (map fst st) then JStr k else JUndefined), st)"
| "perform (Add r k) st =
     (if k \<in> set (map fst st)
      then (Inl (DOMException ''ConstraintError'' ''Key already exists in the object store''), st)
      else (Inr (JStr k), AList.update k r st))"
| "perform (Put r k) st = (Inr (JStr k), AList.update k r st)"
| "perform (Delete k) st = (Inr JUndefined, AList.delete k st)"
| "perform Clear st = (Inr JUndefined, [])"
| "perform Count st = (Inr (JNum (int (length st))), st)"
| "perform GetAllKeys st = (Inr (JArr (map (\<lambda>kv. JStr (fst kv)) st)), st)"
| "perform OpenCursor st =
     (Inr (JArr (map (\<lambda>kv. JObj [(''key'', JStr (fst kv)), (''value'', snd kv)]) st @ [JNull])), st)"

text \<open>What an operation does inside one transaction: it places a request and goes on with
  the event it gets, until it emits, fails, or stays silent.\<close>

datatype 'a tx =
    Emit 'a
  | Throw error
  | Idle
  | Await request "error + jsval \<Rightarrow> 'a tx"

primrec run :: "'a tx \<Rightarrow> object_store \<Rightarrow> 'a outcome \<times> object_store" where
  "run (Emit a) st = (Emits a, st)"
| "run (Throw e) st = (Errors e, st)"
| "run Idle st = (Pending, st)"
| "run (Await r k) st = (case perform r st of (ev, st') \<Rightarrow> run (k ev) st')"

primrec mergeMap :: "('a \<Rightarrow> 'b tx) \<Rightarrow> 'a tx \<Rightarrow> 'b tx" where
  "mergeMap f (Emit a) = f a"
| "mergeMap f (Throw e) = Throw e"
| "mergeMap f Idle = Idle"
| "mergeMap f (Await r k) = Await r (\<lambda>ev. mergeMap f (k ev))"

datatype mode = Readonly | Readwrite

text \<open>What \<open>'getKey' in store\<close> and \<open>'getAllKeys' in store\<close> give: both are there from
  the second version of \<open>indexedDB\<close> on.\<close>

record IDBObjectStore =
  has_getKey :: bool
  has_getAllKeys :: bool

text \<open>The observables the backends return: \<open>of(v)\<close>, \<open>throwError(e)\<close>, and
  \<open>this.transaction(mode).pipe(mergeMap((store) => ...), first())\<close>, which waits for the
  connection held by \<open>this.database\<close>.\<close>

datatype 'a Observable =
    Of 'a
  | ThrowError error
  | FromDatabase mode "IDBObjectStore \<Rightarrow> 'a tx"

section \<open>The browser\<close>

type_synonym Storage = "(string \<times> string) list"

record world =
  open_throws :: "error option"
  store_api :: IDBObjectStore
  objectStore :: object_store
  localStorage :: Storage

definition Storage_getItem :: "Storage \<Rightarrow> string \<Rightarrow> string option" where
  "Storage_getItem ls key = map_of ls key"

definition Storage_setItem :: "Storage \<Rightarrow> string \<Rightarrow> string \<Rightarrow> Storage" where
  "Storage_setItem ls key text = AList.update key text ls"

definition Storage_removeItem :: "Storage \<Rightarrow> string \<Rightarrow> Storage" where
  "Storage_removeItem ls key = AList.delete key ls"

definition Storage_clear :: "Storage \<Rightarrow> Storage" where
  "Storage_clear ls = []"

text \<open>\<open>String(x)\<close> for what \<open>JSON.stringify\<close> returns: \<open>Storage.setItem\<close> stores the text
  \<open>undefined\<close> when it is handed \<open>undefined\<close>.\<close>

definition to_String :: "string option \<Rightarrow> string" where
  "to_String x = (case x of None \<Rightarrow> ''undefined'' | Some text \<Rightarrow> text)"

section \<open>\<open>LocalStorageDatabase\<close>\<close>

definition LocalStorageDatabase_getItem :: "string \<Rightarrow> Storage \<Rightarrow> jsval Observable \<times> Storage" where
  "LocalStorageDatabase_getItem key ls =
    (let unparsedData = Storage_getItem ls key in
     case unparsedData of
       None \<Rightarrow> (Of JNull, ls)
     | Some text \<Rightarrow>
         (case JSON_parse text of
            None \<Rightarrow> (ThrowError (Error ''Invalid data in localStorage.''), ls)
          | Some parseddata \<Rightarrow> (Of parseddata, ls)))"

definition LocalStorageDatabase_setItem :: "string \<Rightarrow> jsval \<Rightarrow> Storage \<Rightarrow> jsval Observable \<times> Storage" where
  "LocalStorageDatabase_setItem key data ls =
    (Of (JBool True), Storage_setItem ls key (to_String (JSON_stringify data)))"

definition LocalStorageDatabase_removeItem :: "string \<Rightarrow> Storage \<Rightarrow> jsval Observable \<times> Storage" where
  "LocalStorageDatabase_removeItem key ls = (Of (JBool True), Storage_removeItem ls key)"

definition LocalStorageDatabase_clear :: "Storage \<Rightarrow> jsval Observable \<times> Storage" where
  "LocalStorageDatabase_clear ls = (Of (JBool True), Storage_clear ls)"

text \<open>Modelled from the spec: the methods \<open>keys\<close>, \<open>has\<close> and \<open>size\<close> of the
  \<open>localStorage\<close> backend, which the fallback of \<open>IndexedDBDatabase\<close> is asked for and
  the class in the repository does not define. The contract gives them: the complete
  set of current keys, a boolean existence check, the current entry count.\<close>

definition LocalStorageDatabase_keys :: "Storage \<Rightarrow> jsval Observable \<times> Storage" where
  "LocalStorageDatabase_keys ls = (Of (JArr (map (\<lambda>kv. JStr (fst kv)) ls)), ls)"

definition LocalStorageDatabase_has :: "string \<Rightarrow> Storage \<Rightarrow> jsval Observable \<times> Storage" where
  "LocalStorageDatabase_has key ls = (Of (JBool (Storage_getItem ls key \<noteq> None)), ls)"

definition LocalStorageDatabase_size :: "Storage \<Rightarrow> jsval Observable \<times> Storage" where
  "LocalStorageDatabase_size ls = (Of (JNum (int (length ls))), ls)"

section \<open>The interface \<open>LocalDatabase\<close>\<close>

record LocalDatabase =
  ld_size :: "world \<Rightarrow> jsval Observable \<times> world"
  ld_getItem :: "string \<Rightarrow> world \<Rightarrow> jsval Observable \<times> world"
  ld_setItem :: "string \<Rightarrow> jsval \<Rightarrow> world \<Rightarrow> jsval Observable \<times> world"
  ld_removeItem :: "string \<Rightarrow> world \<Rightarrow> jsval Observable \<times> world"
  ld_clear :: "world \<Rightarrow> jsval Observable \<times> world"
  ld_keys :: "world \<Rightarrow> jsval Observable \<times> world"
  ld_has :: "string \<Rightarrow> world \<Rightarrow> jsval Observable \<times> world"

definition on_localStorage :: "(Storage \<Rightarrow> jsval Observable \<times> Storage) \<Rightarrow> world \<Rightarrow> jsval Observable \<times> world" where
  "on_localStorage f w = (case f (localStorage w) of (obs, ls) \<Rightarrow> (obs, w\<lparr>localStorage := ls\<rparr>))"

text \<open>\<open>new LocalStorageDatabase(prefix)\<close>. The class in the repository declares no
  constructor, so the argument is dropped.\<close>

definition new_LocalStorageDatabase :: "string option \<Rightarrow> LocalDatabase" where
  "new_LocalStorageDatabase prefix =
    \<lparr> ld_size = on_localStorage LocalStorageDatabase_size,
      ld_getItem = (\<lambda>key. on_localStorage (LocalStorageDatabase_getItem key)),
      ld_setItem = (\<lambda>key data. on_localStorage (LocalStorageDatabase_setItem key data)),
      ld_removeItem = (\<lambda>key. on_localStorage (LocalStorageDatabase_removeItem key)),
      ld_clear = on_localStorage LocalStorageDatabase_clear,
      ld_keys = on_localStorage LocalStorageDatabase_keys,
      ld_has = (\<lambda>key. on_localStorage (LocalStorageDatabase_has key)) \<rparr>"


section \<open>\<open>IndexedDBDatabase\<close>\<close>

text \<open>\<open>this.database\<close>, a \<open>ReplaySubject\<close>: it holds nothing until the connection is
  registered, and replays the connection to whoever subscribes afterwards.\<close>

datatype connection = Opening | Opened

record IndexedDBDatabase =
  dbName :: string
  storeName :: string
  database :: connection
  fallback :: "LocalDatabase option"

definition dataPath :: string where
  "dataPath = ''value''"

text \<open>\<open>race([success$.pipe(map(mapCallback)), error$])\<close>: the success event maps to the
  wanted value, the error event throws \<open>request.error\<close>.\<close>

definition requestEventsAndMapTo :: "request \<Rightarrow> (jsval \<Rightarrow> 'a) \<Rightarrow> 'a tx" where
  "requestEventsAndMapTo request mapCallback =
    Await request (\<lambda>ev. case ev of Inl e \<Rightarrow> Throw e | Inr result \<Rightarrow> Emit (mapCallback result))"

definition getKeyRequest :: "IDBObjectStore \<Rightarrow> string \<Rightarrow> request" where
  "getKeyRequest store key = (if has_getKey store then GetKey key else Get key)"

text \<open>The callback of \<open>getItem\<close>, on \<open>request.result\<close>.\<close>

definition getItem_value :: "jsval \<Rightarrow> jsval" where
  "getItem_value result =
    (if result \<noteq> JUndefined \<and> result \<noteq> JNull \<and> typeof result = ''object''
        \<and> in_operator dataPath result = Some True
        \<and> property result dataPath \<noteq> JUndefined \<and> property result dataPath \<noteq> JNull
     then property result dataPath
     else if result \<noteq> JUndefined \<and> result \<noteq> JNull then result
     else JNull)"

definition IndexedDBDatabase_size :: "IndexedDBDatabase \<Rightarrow> world \<Rightarrow> jsval Observable \<times> world" where
  "IndexedDBDatabase_size self w =
    (case fallback self of
       Some fb \<Rightarrow> ld_size fb w
     | None \<Rightarrow> (FromDatabase Readonly (\<lambda>store. requestEventsAndMapTo Count (\<lambda>result. result)), w))"

definition IndexedDBDatabase_getItem :: "IndexedDBDatabase \<Rightarrow> string \<Rightarrow> world \<Rightarrow> jsval Observable \<times> world" where
  "IndexedDBDatabase_getItem self key w =
    (case fallback self of
       Some fb \<Rightarrow> ld_getItem fb key w
     | None \<Rightarrow> (FromDatabase Readonly (\<lambda>store. requestEventsAndMapTo (Get key) getItem_value), w))"

definition IndexedDBDatabase_setItem :: "IndexedDBDatabase \<Rightarrow> string \<Rightarrow> jsval \<Rightarrow> world \<Rightarrow> jsval Observable \<times> world" where
  "IndexedDBDatabase_setItem self key data w =
    (case fallback self of
       Some fb \<Rightarrow> ld_setItem fb key data w
     | None \<Rightarrow>
         if data = JUndefined \<or> data = JNull then (Of (JBool True), w)
         else
           (FromDatabase Readwrite (\<lambda>store.
              mergeMap (\<lambda>existingEntry.
                  requestEventsAndMapTo
                    (if existingEntry = JUndefined then Add (JObj [(dataPath, data)]) key
                     else Put (JObj [(dataPath, data)]) key)
                    (\<lambda>result. JBool True))
                (requestEventsAndMapTo (getKeyRequest store key) (\<lambda>result. result))), w))"

definition IndexedDBDatabase_removeItem :: "IndexedDBDatabase \<Rightarrow> string \<Rightarrow> world \<Rightarrow> jsval Observable \<times> world" where
  "IndexedDBDatabase_removeItem self key w =
    (case fallback self of
       Some fb \<Rightarrow> ld_removeItem fb key w
     | None \<Rightarrow>
         (FromDatabase Readwrite (\<lambda>store. requestEventsAndMapTo (Delete key) (\<lambda>result. JBool True)), w))"

definition IndexedDBDatabase_clear :: "IndexedDBDatabase \<Rightarrow> world \<Rightarrow> jsval Observable \<times> world" where
  "IndexedDBDatabase_clear self w =
    (case fallback self of
       Some fb \<Rightarrow> ld_clear fb w
     | None \<Rightarrow>
         (FromDatabase Readwrite (\<lambda>store. requestEventsAndMapTo Clear (\<lambda>result. JBool True)), w))"

text \<open>The older browsers' way to the keys: every success event of the cursor request
  carries a cursor, whose key is kept, or \<open>null\<close>, which ends the walk and lets the keys
  through.\<close>

fun getKeysFromCursor :: "jsval list \<Rightarrow> jsval list \<Rightarrow> jsval tx" where
  "getKeysFromCursor [] keys = Idle"
| "getKeysFromCursor (cursor # later) keys =
    (if truthy cursor then getKeysFromCursor later (keys @ [property cursor ''key''])
     else Emit (JArr keys))"

definition IndexedDBDatabase_keys :: "IndexedDBDatabase \<Rightarrow> world \<Rightarrow> jsval Observable \<times> world" where
  "IndexedDBDatabase_keys self w =
    (case fallback self of
       Some fb \<Rightarrow> ld_keys fb w
     | None \<Rightarrow>
         (FromDatabase Readonly (\<lambda>store.
            if has_getAllKeys store then requestEventsAndMapTo GetAllKeys (\<lambda>result. result)
            else Await OpenCursor (\<lambda>ev. case ev of
                Inl e \<Rightarrow> Throw e
              | Inr events \<Rightarrow> (case events of JArr cursors \<Rightarrow> getKeysFromCursor cursors [] | _ \<Rightarrow> Idle))), w))"

definition IndexedDBDatabase_has :: "IndexedDBDatabase \<Rightarrow> string \<Rightarrow> world \<Rightarrow> jsval Observable \<times> world" where
  "IndexedDBDatabase_has self key w =
    (case fallback self of
       Some fb \<Rightarrow> ld_has fb key w
     | None \<Rightarrow>
         (FromDatabase Readonly (\<lambda>store.
            requestEventsAndMapTo (getKeyRequest store key) (\<lambda>result. JBool (result \<noteq> JUndefined))), w))"

text \<open>The constructor of the fallback is a parameter: \<open>setFallback\<close> calls
  \<open>new LocalStorageDatabase(prefix)\<close>.\<close>

definition setFallback :: "(string option \<Rightarrow> LocalDatabase) \<Rightarrow> string option \<Rightarrow> IndexedDBDatabase \<Rightarrow> IndexedDBDatabase" where
  "setFallback new_fallback prefix self = self\<lparr>fallback := Some (new_fallback prefix)\<rparr>"

text \<open>\<open>connect\<close>: where \<open>indexedDB.open\<close> throws, the fallback is set at once and nothing
  listens to the request; otherwise the second component holds the prefix the listener
  to the first success or error event of the open request has captured. The creation of
  the object store on \<open>upgradeneeded\<close> is not followed: the engine below has the one
  store.\<close>

definition connect :: "(string option \<Rightarrow> LocalDatabase) \<Rightarrow> string option \<Rightarrow> world \<Rightarrow> IndexedDBDatabase
    \<Rightarrow> IndexedDBDatabase \<times> string option option" where
  "connect new_fallback prefix w self =
    (case open_throws w of
       Some error \<Rightarrow> (setFallback new_fallback prefix self, None)
     | None \<Rightarrow> (self, Some prefix))"

text \<open>The constructor. An empty prefix counts as none (\<open>prefix ? ... : dbName\<close>).\<close>

definition new_IndexedDBDatabase :: "(string option \<Rightarrow> LocalDatabase) \<Rightarrow> string option \<Rightarrow> string \<Rightarrow> string \<Rightarrow> world
    \<Rightarrow> IndexedDBDatabase \<times> string option option" where
  "new_IndexedDBDatabase new_fallback prefix dbName0 storeName0 w =
    connect new_fallback prefix w
      \<lparr> dbName = (case prefix of
                    None \<Rightarrow> dbName0
                  | Some p \<Rightarrow> if p = [] then dbName0 else p @ ''_'' @ dbName0),
        storeName = storeName0,
        database = Opening,
        fallback = None \<rparr>"

datatype open_event = Success | Failure error

text \<open>The two callbacks \<open>connect\<close> subscribes to the open request.\<close>

definition on_open_event :: "(string option \<Rightarrow> LocalDatabase) \<Rightarrow> string option \<Rightarrow> open_event \<Rightarrow> IndexedDBDatabase \<Rightarrow> IndexedDBDatabase" where
  "on_open_event new_fallback prefix ev self =
    (case ev of
       Success \<Rightarrow> self\<lparr>database := Opened\<rparr>
     | Failure error \<Rightarrow> setFallback new_fallback prefix self)"

text \<open>Subscribing to what a method returned and letting the engine serve the
  transaction, on a backend whose connection has been registered. Before that the
  subscriber has heard nothing.\<close>

definition settle :: "IndexedDBDatabase \<Rightarrow> jsval Observable \<times> world \<Rightarrow> jsval outcome \<times> world" where
  "settle self r =
    (case r of
       (Of v, w) \<Rightarrow> (Emits v, w)
     | (ThrowError e, w) \<Rightarrow> (Errors e, w)
     | (FromDatabase m script, w) \<Rightarrow>
         (case database self of
            Opening \<Rightarrow> (Pending, w)
          | Opened \<Rightarrow>
              (case run (script (store_api w)) (objectStore w) of
                 (out, st) \<Rightarrow> (out, w\<lparr>objectStore := st\<rparr>))))"

section \<open>Calls and events on one backend instance\<close>

text \<open>The backend as the page sees it over time. A caller calls a method and subscribes
  to what it returns, under a ticket of its choice; the open request fires its success
  or error event; the engine serves the oldest transaction. Transactions over the one
  object store are served in the order of their creation, each to its end.\<close>

datatype call =
    GetItem string
  | SetItem string jsval
  | RemoveItem string
  | ClearAll
  | Keys
  | Has string
  | Size

fun invoke :: "call \<Rightarrow> IndexedDBDatabase \<Rightarrow> world \<Rightarrow> jsval Observable \<times> world" where
  "invoke (GetItem key) self w = IndexedDBDatabase_getItem self key w"
| "invoke (SetItem key data) self w = IndexedDBDatabase_setItem self key data w"
| "invoke (RemoveItem key) self w = IndexedDBDatabase_removeItem self key w"
| "invoke ClearAll self w = IndexedDBDatabase_clear self w"
| "invoke Keys self w = IndexedDBDatabase_keys self w"
| "invoke (Has key) self w = IndexedDBDatabase_has self key w"
| "invoke Size self w = IndexedDBDatabase_size self w"

text \<open>The same call, made on a \<open>LocalDatabase\<close>.\<close>

fun delegate :: "call \<Rightarrow> LocalDatabase \<Rightarrow> world \<Rightarrow> jsval Observable \<times> world" where
  "delegate (GetItem key) fb w = ld_getItem fb key w"
| "delegate (SetItem key data) fb w = ld_setItem fb key data w"
| "delegate (RemoveItem key) fb w = ld_removeItem fb key w"
| "delegate ClearAll fb w = ld_clear fb w"
| "delegate Keys fb w = ld_keys fb w"
| "delegate (Has key) fb w = ld_has fb key w"
| "delegate Size fb w = ld_size fb w"

record system =
  backend :: IndexedDBDatabase
  listener :: "string option option"
  subscribers :: "(nat \<times> (IDBObjectStore \<Rightarrow> jsval tx)) list"
  transactions :: "(nat \<times> jsval tx) list"
  notifications :: "(nat \<times> jsval outcome) list"
  env :: world

datatype event = Call nat call | OpenEvent open_event | Serve

definition subscribe :: "nat \<Rightarrow> jsval Observable \<Rightarrow> system \<Rightarrow> system" where
  "subscribe ticket obs s =
    (case obs of
       Of v \<Rightarrow> s\<lparr>notifications := notifications s @ [(ticket, Emits v)]\<rparr>
     | ThrowError e \<Rightarrow> s\<lparr>notifications := notifications s @ [(ticket, Errors e)]\<rparr>
     | FromDatabase m script \<Rightarrow>
         (case database (backend s) of
            Opening \<Rightarrow> s\<lparr>subscribers := subscribers s @ [(ticket, script)]\<rparr>
          | Opened \<Rightarrow> s\<lparr>transactions := transactions s @ [(ticket, script (store_api (env s)))]\<rparr>))"

fun step :: "(string option \<Rightarrow> LocalDatabase) \<Rightarrow> event \<Rightarrow> system \<Rightarrow> system" where
  "step new_fallback (Call ticket c) s =
    (case invoke c (backend s) (env s) of (obs, w) \<Rightarrow> subscribe ticket obs (s\<lparr>env := w\<rparr>))"
| "step new_fallback (OpenEvent ev) s =
    (case listener s of
       None \<Rightarrow> s
     | Some prefix \<Rightarrow>
         (case ev of
            Success \<Rightarrow>
              s\<lparr>backend := on_open_event new_fallback prefix ev (backend s),
                listener := None,
                transactions := transactions s @
                  map (\<lambda>sub. (fst sub, snd sub (store_api (env s)))) (subscribers s),
                subscribers := []\<rparr>
          | Failure error \<Rightarrow>
              s\<lparr>backend := on_open_event new_fallback prefix ev (backend s), listener := None\<rparr>))"
| "step new_fallback Serve s =
    (case transactions s of
       [] \<Rightarrow> s
     | (ticket, t) # later \<Rightarrow>
         (case run t (objectStore (env s)) of
            (out, st) \<Rightarrow>
              s\<lparr>transactions := later,
                notifications := notifications s @ [(ticket, out)],
                env := (env s)\<lparr>objectStore := st\<rparr>\<rparr>))"

definition boot :: "(string option \<Rightarrow> LocalDatabase) \<Rightarrow> string option \<Rightarrow> string \<Rightarrow> string \<Rightarrow> world \<Rightarrow> system" where
  "boot new_fallback prefix dbName0 storeName0 w =
    (case new_IndexedDBDatabase new_fallback prefix dbName0 storeName0 w of
       (me, l) \<Rightarrow>
         \<lparr> backend = me, listener = l, subscribers = [], transactions = [], notifications = [], env = w \<rparr>)"

definition steps :: "(string option \<Rightarrow> LocalDatabase) \<Rightarrow> event list \<Rightarrow> system \<Rightarrow> system" where
  "steps new_fallback evs s = foldl (\<lambda>s ev. step new_fallback ev s) s evs"

text \<open>While the listener to the open request is there, the connection has not been
  registered and no fallback has been set; the listener holds the prefix of the
  constructor.\<close>

definition listening :: "string option \<Rightarrow> system \<Rightarrow> bool" where
  "listening prefix s = (listener s = None \<or>
     (listener s = Some prefix \<and> database (backend s) = Opening \<and> fallback (backend s) = None))"

text \<open>A fallback is only ever set on a backend whose connection has not been registered,
  and once it is set nothing listens to the open request any more.\<close>

definition one_mode :: "system \<Rightarrow> bool" where
  "one_mode s = (fallback (backend s) = None \<or> (listener s = None \<and> database (backend s) = Opening))"


section \<open>The earlier \<open>IndexedDBDatabase\<close>\<close>

text \<open>The class as the repository also holds it, without fallback: \<open>connect\<close> lets an
  exception of \<open>indexedDB.open\<close> leave the constructor, and hands the error of the open
  request to \<open>this.database\<close>, which replays it to every subscriber.\<close>

datatype connection_v1 = Opening_v1 | Opened_v1 | Failed_v1 error

record IndexedDBDatabase_v1 =
  dbName_v1 :: string
  database_v1 :: connection_v1

fun error_message :: "error \<Rightarrow> string" where
  "error_message (Error m) = m"
| "error_message (TypeError m) = m"
| "error_message (DOMException n m) = m"

definition toErrorObservable :: "error \<Rightarrow> string \<Rightarrow> 'a tx" where
  "toErrorObservable request_error label =
    Throw (Error (''IndexedDB '' @ label @ '' issue : '' @ error_message request_error @ ''.''))"

definition new_IndexedDBDatabase_v1 :: "string option \<Rightarrow> world \<Rightarrow> error + IndexedDBDatabase_v1" where
  "new_IndexedDBDatabase_v1 prefix w =
    (case open_throws w of
       Some error \<Rightarrow> Inl error
     | None \<Rightarrow>
         Inr \<lparr> dbName_v1 = (case prefix of
                              None \<Rightarrow> ''ngStorage''
                            | Some p \<Rightarrow> if p = [] then ''ngStorage'' else p @ ''_'' @ ''ngStorage''),
               database_v1 = Opening_v1 \<rparr>)"

definition on_open_event_v1 :: "open_event \<Rightarrow> IndexedDBDatabase_v1 \<Rightarrow> IndexedDBDatabase_v1" where
  "on_open_event_v1 ev self =
    (case ev of
       Success \<Rightarrow> self\<lparr>database_v1 := Opened_v1\<rparr>
     | Failure error \<Rightarrow>
         self\<lparr>database_v1 :=
           Failed_v1 (Error (''IndexedDB connection issue : '' @ error_message error @ ''.''))\<rparr>)"

text \<open>\<open>result && (this.dataPath in result) ? result[this.dataPath] : null\<close>; on a truthy
  primitive the operator \<open>in\<close> throws.\<close>

definition getItem_value_v1 :: "jsval \<Rightarrow> error + jsval" where
  "getItem_value_v1 result =
    (if truthy result then
       (case in_operator dataPath result of
          None \<Rightarrow> Inl (TypeError ''right-hand side of in is not an object'')
        | Some True \<Rightarrow> Inr (property result dataPath)
        | Some False \<Rightarrow> Inr JNull)
     else Inr JNull)"

definition getItem_tx_v1 :: "string \<Rightarrow> jsval tx" where
  "getItem_tx_v1 key =
    Await (Get key) (\<lambda>ev. case ev of
        Inl e \<Rightarrow> toErrorObservable e ''getter''
      | Inr result \<Rightarrow> (case getItem_value_v1 result of Inl e \<Rightarrow> Throw e | Inr v \<Rightarrow> Emit v))"

definition IndexedDBDatabase_v1_getItem :: "IndexedDBDatabase_v1 \<Rightarrow> string \<Rightarrow> jsval Observable" where
  "IndexedDBDatabase_v1_getItem self key = FromDatabase Readonly (\<lambda>store. getItem_tx_v1 key)"

definition IndexedDBDatabase_v1_setItem :: "IndexedDBDatabase_v1 \<Rightarrow> string \<Rightarrow> jsval \<Rightarrow> jsval Observable" where
  "IndexedDBDatabase_v1_setItem self key data =
    (if nullish data then Of (JBool True)
     else
       FromDatabase Readwrite (\<lambda>store.
         Await (getKeyRequest store key) (\<lambda>ev. case ev of
             Inl e \<Rightarrow> toErrorObservable e ''setter''
           | Inr existingKeyOrValue \<Rightarrow>
               Await (if existingKeyOrValue = JUndefined then Add (JObj [(dataPath, data)]) key
                      else Put (JObj [(dataPath, data)]) key)
                 (\<lambda>ev. case ev of
                     Inl e \<Rightarrow> toErrorObservable e ''setter''
                   | Inr result \<Rightarrow> Emit (JBool True)))))"

text \<open>\<open>removeItem\<close> reads the item first and opens the deleting transaction from the
  success callback of the read, only if the item read is neither \<open>null\<close> nor
  \<open>undefined\<close>.\<close>

definition IndexedDBDatabase_v1_removeItem :: "IndexedDBDatabase_v1 \<Rightarrow> string \<Rightarrow> jsval Observable" where
  "IndexedDBDatabase_v1_removeItem self key =
    FromDatabase Readonly (\<lambda>store.
      mergeMap (\<lambda>data.
          if \<not> nullish data then
            Await (Delete key) (\<lambda>ev. case ev of
                Inl e \<Rightarrow> toErrorObservable e ''remover''
              | Inr result \<Rightarrow> Emit (JBool True))
          else Emit (JBool True))
        (getItem_tx_v1 key))"

definition IndexedDBDatabase_v1_clear :: "IndexedDBDatabase_v1 \<Rightarrow> jsval Observable" where
  "IndexedDBDatabase_v1_clear self =
    FromDatabase Readwrite (\<lambda>store.
      Await Clear (\<lambda>ev. case ev of
          Inl e \<Rightarrow> toErrorObservable e ''clearer''
        | Inr result \<Rightarrow> Emit (JBool True)))"

definition settle_v1 :: "IndexedDBDatabase_v1 \<Rightarrow> jsval Observable \<Rightarrow> world \<Rightarrow> jsval outcome \<times> world" where
  "settle_v1 self obs w =
    (case obs of
       Of v \<Rightarrow> (Emits v, w)
     | ThrowError e \<Rightarrow> (Errors e, w)
     | FromDatabase m script \<Rightarrow>
         (case database_v1 self of
            Opening_v1 \<Rightarrow> (Pending, w)
          | Failed_v1 e \<Rightarrow> (Errors e, w)
          | Opened_v1 \<Rightarrow>
              (case run (script (store_api w)) (objectStore w) of
                 (out, st) \<Rightarrow> (out, w\<lparr>objectStore := st\<rparr>))))"

section \<open>The service in front of the backend\<close>

text \<open>Modelled from the spec: \<open>getItem(key, options)\<close> of the facade (the class
  \<open>LocalStorage\<close> of \<open>lib.service.ts\<close>, of which the repository holds the tests only).
  It delegates to the backend; if a schema is supplied and the value retrieved is not
  the absence marker, it passes value and schema to the validator; a validation failure
  fails with the fixed message the tests expect, a malformed schema with the
  validator's own error. The validator is a black box, taken as a parameter.\<close>

datatype validation = Valid | Invalid | Malformed error

definition LocalStorage_getItem :: "(jsval \<Rightarrow> 'schema \<Rightarrow> validation) \<Rightarrow> 'schema option \<Rightarrow> jsval outcome \<Rightarrow> jsval outcome" where
  "LocalStorage_getItem validate schema from_backend =
    (case from_backend of
       Emits data \<Rightarrow>
         (case schema of
            None \<Rightarrow> Emits data
          | Some sc \<Rightarrow>
              if data = JNull then Emits data
              else
                (case validate data sc of
                   Valid \<Rightarrow> Emits data
                 | Invalid \<Rightarrow> Errors (Error ''JSON invalid'')
                 | Malformed e \<Rightarrow> Errors e))
     | Errors e \<Rightarrow> Errors e
     | Pending \<Rightarrow> Pending)"

section \<open>Example states\<close>

definition modern_store :: IDBObjectStore where
  "modern_store = \<lparr> has_getKey = True, has_getAllKeys = True \<rparr>"

definition older_store :: IDBObjectStore where
  "older_store = \<lparr> has_getKey = False, has_getAllKeys = False \<rparr>"

definition example_world :: world where
  "example_world =
    \<lparr> open_throws = None,
      store_api = older_store,
      objectStore =
        [(''wrapped'', JObj [(''value'', JStr ''blue'')]),
         (''raw'', JStr ''hello''),
         (''other'', JObj [(''test'', JStr ''value'')]),
         (''void'', JUndefined)],
      localStorage = [(''color'', [CHR 0x22, CHR ''r'', CHR ''e'', CHR ''d'', CHR 0x22]), (''bad'', ''{oops'')] \<rparr>"

definition primary_backend :: IndexedDBDatabase where
  "primary_backend =
    \<lparr> dbName = ''ngStorage'', storeName = ''localStorage'', database = Opened, fallback = None \<rparr>"

definition fallen_backend :: IndexedDBDatabase where
  "fallen_backend =
    \<lparr> dbName = ''ngStorage'', storeName = ''localStorage'', database = Opening,
      fallback = Some (new_LocalStorageDatabase None) \<rparr>"

definition opened_backend_v1 :: IndexedDBDatabase_v1 where
  "opened_backend_v1 = \<lparr> dbName_v1 = ''ngStorage'', database_v1 = Opened_v1 \<rparr>"

definition private_world :: world where
  "private_world = example_world\<lparr>open_throws := Some (DOMException ''SecurityError'' ''The operation is insecure'')\<rparr>"

text \<open>The backend right after its constructor, in a browser that lets \<open>indexedDB.open\<close>
  return and in one where it throws.\<close>

definition booted :: system where
  "booted = boot new_LocalStorageDatabase None ''ngStorage'' ''localStorage'' example_world"

definition booted_private :: system where
  "booted_private = boot new_LocalStorageDatabase None ''ngStorage'' ''localStorage'' private_world"

text \<open>An example validator: the schema names a property that is required and must hold a
  string.\<close>

definition requires_string :: "jsval \<Rightarrow> string \<Rightarrow> validation" where
  "requires_string v name =
    (case v of
       JObj kvs \<Rightarrow> (case map_of kvs name of Some (JStr s) \<Rightarrow> Valid | _ \<Rightarrow> Invalid)
     | _ \<Rightarrow> Invalid)"

definition schema_world :: world where
  "schema_world =
    \<lparr> open_throws = None,
      store_api = modern_store,
      objectStore =
        [(''index'', JObj [(''value'', JObj [(''unexpected'', JStr ''value'')])]),
         (''good'', JObj [(''value'', JObj [(''expected'', JStr ''value'')])])],
      localStorage = [] \<rparr>"


section \<open>\<open>JSON.parse\<close> reads back what \<open>JSON.stringify\<close> writes\<close>

subsection \<open>Digits\<close>

lemma of_char_digit_char: "d < 10 \<Longrightarrow> (of_char (digit_char d) :: nat) = 48 + d"
  by (simp add: digit_char_def)

lemma is_digit_digit_char: "d < 10 \<Longrightarrow> is_digit (digit_char d)"
  by (simp add: is_digit_def of_char_digit_char)

lemma digit_val_digit_char: "d < 10 \<Longrightarrow> digit_val (digit_char d) = d"
  by (simp add: digit_val_def of_char_digit_char)

lemma nat_digits_all_digits: "\<forall>c \<in> set (nat_digits n). is_digit c"
proof (induction n rule: nat_digits.induct)
  case (1 n)
  show ?case
  proof (cases "n < 10")
    case True
    then show ?thesis by (subst nat_digits.simps) (simp add: is_digit_digit_char)
  next
    case False
    with 1 show ?thesis by (subst nat_digits.simps) (simp add: is_digit_digit_char)
  qed
qed

lemma nat_digits_nonempty: "nat_digits n \<noteq> []"
  by (subst nat_digits.simps) simp

lemma nat_digits_value: "foldl (\<lambda>a c. 10 * a + digit_val c) 0 (nat_digits n) = n"
proof (induction n rule: nat_digits.induct)
  case (1 n)
  show ?case
  proof (cases "n < 10")
    case True
    then show ?thesis by (subst nat_digits.simps) (simp add: digit_val_digit_char)
  next
    case False
    with 1 show ?thesis by (subst nat_digits.simps) (simp add: digit_val_digit_char)
  qed
qed

lemma digit_char_zero: "d < 10 \<Longrightarrow> digit_char d = CHR ''0'' \<Longrightarrow> d = 0"
proof -
  assume d: "d < 10" and "digit_char d = CHR ''0''"
  then have "(of_char (digit_char d) :: nat) = of_char (CHR ''0'')" by simp
  with d show ?thesis by (simp add: of_char_digit_char)
qed

lemma hd_nat_digits_zero: "hd (nat_digits n) = CHR ''0'' \<Longrightarrow> n = 0"
proof (induction n rule: nat_digits.induct)
  case (1 n)
  show ?case
  proof (cases "n < 10")
    case True
    with 1(2) show ?thesis by (subst (asm) nat_digits.simps) (simp add: digit_char_zero)
  next
    case False
    with 1(2) have "hd (nat_digits (n div 10)) = CHR ''0''"
      by (subst (asm) nat_digits.simps) (simp add: nat_digits_nonempty)
    with 1(1) False have "n div 10 = 0" by simp
    with False show ?thesis by simp
  qed
qed

lemma length_nat_digits_zero: "length (nat_digits 0) = 1"
  by (subst nat_digits.simps) simp

lemma parse_nat_digits:
  assumes "ends_number rest"
  shows "parse_nat (nat_digits n @ rest) = Some (n, rest)"
proof -
  have tw: "takeWhile is_digit (nat_digits n @ rest) = nat_digits n"
    using assms nat_digits_all_digits [of n]
    by (cases rest) (simp_all add: ends_number_def takeWhile_append2)
  have dw: "dropWhile is_digit (nat_digits n @ rest) = rest"
    using assms nat_digits_all_digits [of n]
    by (cases rest) (simp_all add: ends_number_def dropWhile_append2)
  have lead: "\<not> (hd (nat_digits n) = CHR ''0'' \<and> 1 < length (nat_digits n))"
    using hd_nat_digits_zero [of n] length_nat_digits_zero by auto
  show ?thesis
    unfolding parse_nat_def Let_def tw dw
    using lead by (simp add: nat_digits_nonempty nat_digits_value)
qed

lemma is_digit_not_minus: "is_digit c \<Longrightarrow> c \<noteq> CHR ''-''"
  by (auto simp: is_digit_def)

lemma hd_nat_digits_digit: "is_digit (hd (nat_digits n))"
  using nat_digits_all_digits [of n] nat_digits_nonempty [of n] by (cases "nat_digits n") auto

lemma parse_number_ser:
  assumes "ends_number rest"
  shows "parse_number (ser (JNum n) @ rest) = Some (JNum n, rest)"
proof (cases "n < 0")
  case True
  then show ?thesis
    using parse_nat_digits [OF assms, of "nat (- n)"]
    by (simp add: parse_number_def)
next
  case False
  obtain c cs where cs: "nat_digits (nat n) = c # cs"
    using nat_digits_nonempty [of "nat n"] by (cases "nat_digits (nat n)") auto
  then have "is_digit c" using hd_nat_digits_digit [of "nat n"] by simp
  then have "c \<noteq> CHR ''-''" by (rule is_digit_not_minus)
  then show ?thesis
    using False cs parse_nat_digits [OF assms, of "nat n"]
    by (simp add: parse_number_def)
qed


subsection \<open>String literals\<close>

lemma hex_val_hex_char: "d < 16 \<Longrightarrow> hex_val (hex_char d) = Some d"
  by (auto simp: hex_val_def hex_char_def Let_def)

lemma hex_val_zero: "hex_val (CHR ''0'') = Some 0"
  by (simp add: hex_val_def)

lemma hex4_control:
  assumes "n < 32"
  shows "hex4 (CHR ''0'') (CHR ''0'') (hex_char (n div 16)) (hex_char (n mod 16)) = Some n"
proof -
  from assms have "n div 16 < 16" by simp
  then show ?thesis by (simp add: hex4_def hex_val_zero hex_val_hex_char)
qed

lemma parse_chars_escape:
  "parse_chars (escape_char c @ tail) = map_option (apfst ((#) c)) (parse_chars tail)"
proof -
  consider (quote) "c = CHR 0x22" | (backslash) "c = CHR 0x5C" | (b) "c = CHR 0x08"
    | (f) "c = CHR 0x0C" | (n) "c = CHR 0x0A" | (r) "c = CHR 0x0D" | (t) "c = CHR 0x09"
    | (control) "c \<noteq> CHR 0x22" "c \<noteq> CHR 0x5C" "c \<noteq> CHR 0x08" "c \<noteq> CHR 0x0C" "c \<noteq> CHR 0x0A"
        "c \<noteq> CHR 0x0D" "c \<noteq> CHR 0x09" "(of_char c :: nat) < 32"
    | (plain) "c \<noteq> CHR 0x22" "c \<noteq> CHR 0x5C" "\<not> (of_char c :: nat) < 32"
    by blast
  then show ?thesis
  proof cases
    case control
    then show ?thesis
      using hex4_control [of "of_char c"]
      by (simp add: escape_char_def)
  next
    case plain
    then show ?thesis
      by (auto simp: escape_char_def)
  qed (simp_all add: escape_char_def unescape_def)
qed

lemma parse_chars_quoted:
  "parse_chars (concat (map escape_char s) @ CHR 0x22 # rest) = Some (s, rest)"
  by (induction s) (simp_all add: parse_chars_escape del: parse_chars.simps, simp)

subsection \<open>Values\<close>

lemma starts_value_plain:
  "starts_value c \<Longrightarrow> \<not> is_ws c \<and> c \<noteq> CHR '']'' \<and> c \<noteq> CHR ''}''"
  by (auto simp: starts_value_def is_ws_def is_digit_def)

lemma ser_starts: "\<exists>c cs. ser v = c # cs \<and> starts_value c"
proof (cases v)
  case (JNum n)
  obtain c cs where cs: "nat_digits (nat \<bar>n\<bar>) = c # cs"
    using nat_digits_nonempty [of "nat \<bar>n\<bar>"] by (cases "nat_digits (nat \<bar>n\<bar>)") auto
  then have "is_digit c" using hd_nat_digits_digit [of "nat \<bar>n\<bar>"] by simp
  with JNum cs show ?thesis
    by (cases "n < 0") (auto simp: starts_value_def abs_if)
qed (auto simp: starts_value_def quote_def)

lemma skip_ws_start: "\<not> is_ws c \<Longrightarrow> skip_ws (c # cs) = c # cs"
  by (simp add: skip_ws_def)

lemma number_start_plain:
  assumes "is_digit c \<or> c = CHR ''-''"
  shows "\<not> is_ws c" "c \<noteq> CHR ''n''" "c \<noteq> CHR ''t''" "c \<noteq> CHR ''f''" "c \<noteq> CHR 0x22"
    "c \<noteq> CHR ''[''" "c \<noteq> CHR ''{''"
  using assms by (auto simp: is_ws_def is_digit_def)

lemma parse_value_number:
  assumes "is_digit c \<or> c = CHR ''-''"
  shows "parse_value (Suc n) (c # cs) = parse_number (c # cs)"
proof -
  have "skip_ws (c # cs) = c # cs"
    using number_start_plain(1) [OF assms] by (simp add: skip_ws_def)
  then show ?thesis
    using number_start_plain(2-7) [OF assms] by simp
qed

lemma ser_length_pos: "0 < length (ser v)"
  using ser_starts [of v] by auto

lemma parse_elements_ser:
  assumes "\<And>x n rest. x \<in> set xs \<Longrightarrow> serializable x \<Longrightarrow> length (ser x) \<le> n \<Longrightarrow> ends_number rest
      \<Longrightarrow> parse_value n (ser x @ rest) = Some (x, rest)"
    and "serializable_elements xs" and "xs \<noteq> []" and "length (ser_elements xs) < n"
  shows "parse_elements n (ser_elements xs @ CHR '']'' # rest) = Some (xs, rest)"
  using assms
proof (induction xs arbitrary: n)
  case Nil
  then show ?case by simp
next
  case (Cons x xs)
  obtain m where n: "n = Suc m" using Cons.prems(4) by (cases n) auto
  have sx: "serializable x" using Cons.prems(2) by simp
  show ?case
  proof (cases "xs = []")
    case True
    have "length (ser x) \<le> m" using Cons.prems(4) n True by simp
    then have "parse_value m (ser x @ CHR '']'' # rest) = Some (x, CHR '']'' # rest)"
      using Cons.prems(1) [of x m "CHR '']'' # rest"] sx
      by (simp add: ends_number_def is_digit_def)
    then show ?thesis using True n
      by (simp add: skip_ws_def is_ws_def)
  next
    case False
    have lx: "length (ser x) \<le> m" using Cons.prems(4) n False by simp
    have pv: "parse_value m (ser x @ CHR '','' # ser_elements xs @ CHR '']'' # rest)
        = Some (x, CHR '','' # ser_elements xs @ CHR '']'' # rest)"
      using Cons.prems(1) [of x m "CHR '','' # ser_elements xs @ CHR '']'' # rest"] sx lx
      by (simp add: ends_number_def is_digit_def)
    have "length (ser_elements xs) < m"
      using Cons.prems(4) n False ser_length_pos [of x] by simp
    then have "parse_elements m (ser_elements xs @ CHR '']'' # rest) = Some (xs, rest)"
      using Cons.IH [of m] Cons.prems(1,2) False by simp
    with pv show ?thesis using False n
      by (simp add: skip_ws_def is_ws_def)
  qed
qed

lemma serializable_not_undefined: "serializable v \<Longrightarrow> v \<noteq> JUndefined"
  by auto

lemma parse_members_ser:
  assumes "\<And>k v n rest. (k, v) \<in> set kvs \<Longrightarrow> serializable v \<Longrightarrow> length (ser v) \<le> n \<Longrightarrow> ends_number rest
      \<Longrightarrow> parse_value n (ser v @ rest) = Some (v, rest)"
    and "serializable_members kvs" and "kvs \<noteq> []" and "length (ser_members kvs) < n"
  shows "parse_members n (ser_members kvs @ CHR ''}'' # rest) = Some (kvs, rest)"
  using assms
proof (induction kvs arbitrary: n)
  case Nil
  then show ?case by simp
next
  case (Cons kv kvs)
  obtain k v where kv: "kv = (k, v)" by (cases kv)
  obtain m where n: "n = Suc m" using Cons.prems(4) by (cases n) auto
  have sv: "serializable v" using Cons.prems(2) kv by simp
  then have vd: "v \<noteq> JUndefined" by (rule serializable_not_undefined)
  have more: "(ser_members kvs = []) = (kvs = [])"
  proof (cases kvs)
    case Nil
    then show ?thesis by simp
  next
    case (Cons kv' kvs')
    obtain k' v' where "kv' = (k', v')" by (cases kv')
    moreover have "serializable v'" using Cons.prems(2) kv Cons \<open>kv' = (k', v')\<close> by simp
    ultimately show ?thesis using Cons serializable_not_undefined [of v'] by (auto simp: quote_def)
  qed
  have key: "parse_chars (concat (map escape_char k) @ CHR 0x22 # tail) = Some (k, tail)" for tail
    by (rule parse_chars_quoted)
  show ?case
  proof (cases "kvs = []")
    case True
    have "length (ser v) \<le> m" using Cons.prems(4) n True kv vd by (simp add: quote_def)
    then have pv: "parse_value m (ser v @ CHR ''}'' # rest) = Some (v, CHR ''}'' # rest)"
      using Cons.prems(1) [of k v m "CHR ''}'' # rest"] sv kv
      by (simp add: ends_number_def is_digit_def)
    show ?thesis using True n kv vd key pv
      by (simp add: skip_ws_def is_ws_def quote_def)
  next
    case False
    have lx: "length (ser v) \<le> m" using Cons.prems(4) n False kv vd more by (simp add: quote_def)
    have pv: "parse_value m (ser v @ CHR '','' # ser_members kvs @ CHR ''}'' # rest)
        = Some (v, CHR '','' # ser_members kvs @ CHR ''}'' # rest)"
      using Cons.prems(1) [of k v m "CHR '','' # ser_members kvs @ CHR ''}'' # rest"] sv lx kv
      by (simp add: ends_number_def is_digit_def)
    have lm: "length (ser_members kvs) < m"
      using Cons.prems(4) n False kv vd more by (simp add: quote_def)
    have elem: "parse_value n' (ser v' @ rest') = Some (v', rest')"
      if "(k', v') \<in> set kvs" "serializable v'" "length (ser v') \<le> n'" "ends_number rest'"
      for k' v' n' rest'
      using Cons.prems(1) [of k' v' n' rest'] that by simp
    have sm: "serializable_members kvs" using Cons.prems(2) kv by simp
    have "parse_members m (ser_members kvs @ CHR ''}'' # rest) = Some (kvs, rest)"
      using Cons.IH [OF elem sm False lm] by simp
    with pv show ?thesis using False n kv vd more key
      by (simp add: skip_ws_def is_ws_def quote_def)
  qed
qed

lemma update_fresh: "k \<notin> fst ` set al \<Longrightarrow> AList.update k v al = al @ [(k, v)]"
  by (induction al) auto

lemma members_fold:
  "distinct (map fst (acc @ kvs)) \<Longrightarrow>
    foldl (\<lambda>acc kv. AList.update (fst kv) (snd kv) acc) acc kvs = acc @ kvs"
proof (induction kvs arbitrary: acc)
  case Nil
  then show ?case by simp
next
  case (Cons kv kvs)
  have "fst kv \<notin> fst ` set acc" using Cons.prems by auto
  then have "AList.update (fst kv) (snd kv) acc = acc @ [kv]" by (simp add: update_fresh)
  moreover have "distinct (map fst ((acc @ [kv]) @ kvs))" using Cons.prems by simp
  ultimately show ?case using Cons.IH [of "acc @ [kv]"] by simp
qed

lemma members_object_distinct: "distinct (map fst kvs) \<Longrightarrow> members_object kvs = JObj kvs"
  using members_fold [of "[]" kvs] by (simp add: members_object_def)

lemma parse_value_ser:
  "serializable v \<Longrightarrow> length (ser v) \<le> n \<Longrightarrow> ends_number rest
    \<Longrightarrow> parse_value n (ser v @ rest) = Some (v, rest)"
proof (induction v arbitrary: n rest)
  case JUndefined
  then show ?case by simp
next
  case JNull
  then obtain m where "n = Suc m" by (cases n) auto
  then show ?case by (simp add: skip_ws_def is_ws_def expect_def)
next
  case (JBool b)
  then obtain m where "n = Suc m" by (cases n) (auto split: if_splits)
  then show ?case by (simp add: skip_ws_def is_ws_def expect_def)
next
  case (JNum i)
  obtain m where n: "n = Suc m" using JNum.prems(2) ser_length_pos [of "JNum i"] by (cases n) auto
  obtain c cs where cs: "ser (JNum i) = c # cs" and "starts_value c"
    using ser_starts [of "JNum i"] by blast
  have "is_digit c \<or> c = CHR ''-''"
    using cs hd_nat_digits_digit [of "nat i"] nat_digits_nonempty [of "nat i"]
    by (cases "i < 0"; cases "nat_digits (nat i)") auto
  then have "parse_value (Suc m) (c # cs @ rest) = parse_number (c # cs @ rest)"
    by (rule parse_value_number)
  then show ?case
    using parse_number_ser [OF JNum.prems(3), of i] cs n by (simp del: ser.simps parse_value.simps)
next
  case (JStr s)
  then obtain m where "n = Suc m" by (cases n) (auto simp: quote_def)
  then show ?case
    using parse_chars_quoted [of s rest]
    by (simp add: skip_ws_def is_ws_def quote_def)
next
  case (JArr xs)
  obtain m where n: "n = Suc m" using JArr.prems(2) by (cases n) auto
  show ?case
  proof (cases "xs = []")
    case True
    then show ?thesis using n by (simp add: skip_ws_def is_ws_def)
  next
    case False
    then obtain x xs' where xs: "xs = x # xs'" by (cases xs) auto
    obtain c cs where c: "ser x = c # cs" and sc: "starts_value c"
      using ser_starts [of x] by blast
    have elems: "parse_elements m (ser_elements xs @ CHR '']'' # rest) = Some (xs, rest)"
    proof (rule parse_elements_ser)
      show "serializable_elements xs" using JArr.prems(1) by simp
      show "xs \<noteq> []" by (rule False)
      show "length (ser_elements xs) < m" using JArr.prems(2) n by simp
    qed (rule JArr.IH)
    obtain tl where first: "ser_elements xs @ CHR '']'' # rest = c # tl"
      using xs c by simp
    have "skip_ws (c # tl) = c # tl" using starts_value_plain [OF sc] by (simp add: skip_ws_def)
    then show ?thesis
      using n elems first starts_value_plain [OF sc]
      by (simp add: skip_ws_def is_ws_def del: ser_elements.simps)
  qed
next
  case (JObj kvs)
  obtain m where n: "n = Suc m" using JObj.prems(2) by (cases n) auto
  show ?case
  proof (cases "kvs = []")
    case True
    then show ?thesis using n by (simp add: skip_ws_def is_ws_def)
  next
    case False
    then obtain k v kvs' where kvs: "kvs = (k, v) # kvs'" by (cases kvs) auto
    have "serializable v" using JObj.prems(1) kvs by simp
    then have vd: "v \<noteq> JUndefined" by (rule serializable_not_undefined)
    have members: "parse_members m (ser_members kvs @ CHR ''}'' # rest) = Some (kvs, rest)"
    proof (rule parse_members_ser)
      show "serializable_members kvs" using JObj.prems(1) by simp
      show "kvs \<noteq> []" by (rule False)
      show "length (ser_members kvs) < m" using JObj.prems(2) n by simp
      show "parse_value n' (ser v' @ rest') = Some (v', rest')"
        if "(k', v') \<in> set kvs" "serializable v'" "length (ser v') \<le> n'" "ends_number rest'"
        for k' v' n' rest'
        using JObj.IH [of "(k', v')" v' n' rest'] that by simp
    qed
    obtain tl where first: "ser_members kvs @ CHR ''}'' # rest = CHR 0x22 # tl"
      using kvs vd by (simp add: quote_def)
    show ?thesis
      using n members first members_object_distinct [of kvs] JObj.prems(1)
      by (simp add: skip_ws_def is_ws_def del: ser_members.simps)
  qed
qed

lemma JSON_parse_ser: "serializable v \<Longrightarrow> JSON_parse (ser v) = Some v"
  using parse_value_ser [of v "Suc (length (ser v))" "[]"]
  by (simp add: JSON_parse_def ends_number_def skip_ws_def)

lemma JSON_roundtrip:
  "serializable v \<Longrightarrow> \<exists>text. JSON_stringify v = Some text \<and> JSON_parse text = Some v"
  using JSON_parse_ser [of v] serializable_not_undefined [of v] by (simp add: JSON_stringify_def)


section \<open>Reading a record of the object store\<close>

lemma last_nat_digits: "last (nat_digits n) = digit_char (n mod 10)"
  by (subst nat_digits.simps) simp

lemma digit_char_neq_e: "digit_char (n mod 10) \<noteq> CHR ''e''"
proof
  assume "digit_char (n mod 10) = CHR ''e''"
  then have "(of_char (char_of (48 + n mod 10)) :: nat) = of_char (CHR ''e'')"
    by (simp add: digit_char_def)
  then show False by simp
qed

lemma nat_digits_not_dataPath: "nat_digits n \<noteq> dataPath"
proof
  assume "nat_digits n = dataPath"
  then have "last (nat_digits n) = CHR ''e''" by (simp add: dataPath_def)
  then show False by (simp add: last_nat_digits digit_char_neq_e)
qed

lemma dataPath_in_array: "in_operator dataPath (JArr xs) = Some False"
proof -
  have "dataPath \<notin> set (map nat_digits [0..<length xs])"
  proof
    assume "dataPath \<in> set (map nat_digits [0..<length xs])"
    then have "\<exists>n. dataPath = nat_digits n" by (simp add: image_iff) blast
    then show False using nat_digits_not_dataPath by metis
  qed
  moreover have "dataPath \<noteq> ''length''"
    by (simp add: dataPath_def)
  ultimately show ?thesis by simp
qed

lemma dataPath_in_object:
  "in_operator dataPath (JObj kvs) = Some (map_of kvs dataPath \<noteq> None)"
  by (simp add: map_of_eq_None_iff)

lemma getItem_value_shapes:
  "getItem_value stored =
    (case stored of
       JObj kvs \<Rightarrow>
         (case map_of kvs ''value'' of
            None \<Rightarrow> stored
          | Some content \<Rightarrow> if content = JNull \<or> content = JUndefined then stored else content)
     | JUndefined \<Rightarrow> JNull
     | JNull \<Rightarrow> JNull
     | _ \<Rightarrow> stored)"
proof (cases stored)
  case (JArr xs)
  then show ?thesis by (simp add: getItem_value_def dataPath_in_array del: in_operator.simps)
next
  case (JObj kvs)
  then show ?thesis
    by (simp add: getItem_value_def dataPath_in_object del: in_operator.simps split: option.split)
      (simp add: dataPath_def)
qed (simp_all add: getItem_value_def)

lemma settle_getItem_primary:
  assumes "fallback self = None" and "database self = Opened"
  shows "settle self (IndexedDBDatabase_getItem self key w) =
    (Emits (getItem_value (case map_of (objectStore w) key of Some r \<Rightarrow> r | None \<Rightarrow> JUndefined)), w)"
  using assms
  by (simp add: settle_def IndexedDBDatabase_getItem_def requestEventsAndMapTo_def)


section \<open>What the operations do on a registered connection\<close>

lemma in_keys_iff: "(k \<in> fst ` set st) = (map_of st k \<noteq> None)"
  by (simp add: map_of_eq_None_iff)

lemma settle_setItem_primary:
  assumes "fallback self = None" and "database self = Opened"
    and "data \<noteq> JUndefined" and "data \<noteq> JNull"
  shows "settle self (IndexedDBDatabase_setItem self key data w) =
    (if \<not> has_getKey (store_api w) \<and> map_of (objectStore w) key = Some JUndefined
     then (Errors (DOMException ''ConstraintError'' ''Key already exists in the object store''), w)
     else (Emits (JBool True), w\<lparr>objectStore := AList.update key (JObj [(dataPath, data)]) (objectStore w)\<rparr>))"
  using assms
  by (auto simp: settle_def IndexedDBDatabase_setItem_def requestEventsAndMapTo_def getKeyRequest_def
      in_keys_iff split: option.splits)

lemma settle_setItem_absence:
  assumes "fallback self = None" and "data = JUndefined \<or> data = JNull"
  shows "settle self (IndexedDBDatabase_setItem self key data w) = (Emits (JBool True), w)"
  using assms by (auto simp: settle_def IndexedDBDatabase_setItem_def)

lemma settle_removeItem_primary:
  assumes "fallback self = None" and "database self = Opened"
  shows "settle self (IndexedDBDatabase_removeItem self key w) =
    (Emits (JBool True), w\<lparr>objectStore := AList.delete key (objectStore w)\<rparr>)"
  using assms by (simp add: settle_def IndexedDBDatabase_removeItem_def requestEventsAndMapTo_def)

lemma settle_has_primary:
  assumes "fallback self = None" and "database self = Opened"
  shows "settle self (IndexedDBDatabase_has self key w) =
    (Emits (JBool (if has_getKey (store_api w) then key \<in> set (map fst (objectStore w))
                   else (case map_of (objectStore w) key of Some r \<Rightarrow> r \<noteq> JUndefined | None \<Rightarrow> False))), w)"
  using assms
  by (auto simp: settle_def IndexedDBDatabase_has_def requestEventsAndMapTo_def getKeyRequest_def
      in_keys_iff split: option.splits)

lemma getKeysFromCursor_walk:
  "getKeysFromCursor (map (\<lambda>kv. JObj [(''key'', JStr (fst kv)), (''value'', snd kv)]) st @ [JNull]) keys
    = Emit (JArr (keys @ map (\<lambda>kv. JStr (fst kv)) st))"
  by (induction st arbitrary: keys) simp_all

lemma settle_keys_primary:
  assumes "fallback self = None" and "database self = Opened"
  shows "settle self (IndexedDBDatabase_keys self w) =
    (Emits (JArr (map (\<lambda>kv. JStr (fst kv)) (objectStore w))), w)"
  using assms
  by (simp add: settle_def IndexedDBDatabase_keys_def requestEventsAndMapTo_def getKeysFromCursor_walk)

lemma getItem_value_wrapper:
  "data \<noteq> JUndefined \<Longrightarrow> data \<noteq> JNull \<Longrightarrow> getItem_value (JObj [(dataPath, data)]) = data"
  by (simp add: getItem_value_def)

lemma settle_getItem_v1:
  assumes "database_v1 self = Opened_v1"
  shows "settle_v1 self (IndexedDBDatabase_v1_getItem self key) w =
    (case getItem_value_v1 (case map_of (objectStore w) key of Some r \<Rightarrow> r | None \<Rightarrow> JUndefined) of
       Inl e \<Rightarrow> (Errors e, w) | Inr v \<Rightarrow> (Emits v, w))"
  using assms
  by (simp add: settle_v1_def IndexedDBDatabase_v1_getItem_def getItem_tx_v1_def split: sum.split)

lemma settle_removeItem_v1:
  assumes "database_v1 self = Opened_v1"
  shows "settle_v1 self (IndexedDBDatabase_v1_removeItem self key) w =
    (case getItem_value_v1 (case map_of (objectStore w) key of Some r \<Rightarrow> r | None \<Rightarrow> JUndefined) of
       Inl e \<Rightarrow> (Errors e, w)
     | Inr v \<Rightarrow> (Emits (JBool True),
          if nullish v then w else w\<lparr>objectStore := AList.delete key (objectStore w)\<rparr>))"
  using assms
  by (simp add: settle_v1_def IndexedDBDatabase_v1_removeItem_def getItem_tx_v1_def split: sum.split)

section \<open>What the operations do on \<open>localStorage\<close>\<close>

lemma getItem_localStorage:
  "LocalStorageDatabase_getItem key ls =
    (case map_of ls key of
       None \<Rightarrow> (Of JNull, ls)
     | Some text \<Rightarrow>
         (case JSON_parse text of
            None \<Rightarrow> (ThrowError (Error ''Invalid data in localStorage.''), ls)
          | Some v \<Rightarrow> (Of v, ls)))"
  by (simp add: LocalStorageDatabase_getItem_def Storage_getItem_def)

lemma setItem_localStorage:
  "LocalStorageDatabase_setItem key data ls =
    (Of (JBool True), AList.update key (to_String (JSON_stringify data)) ls)"
  by (simp add: LocalStorageDatabase_setItem_def Storage_setItem_def)

lemma removeItem_localStorage:
  "LocalStorageDatabase_removeItem key ls = (Of (JBool True), AList.delete key ls)"
  by (simp add: LocalStorageDatabase_removeItem_def Storage_removeItem_def)

lemma getItem_after_setItem_localStorage:
  assumes "serializable data"
  shows "LocalStorageDatabase_getItem key (snd (LocalStorageDatabase_setItem key data ls)) =
    (Of data, snd (LocalStorageDatabase_setItem key data ls))"
  using assms JSON_parse_ser [of data] serializable_not_undefined [of data]
  by (simp add: getItem_localStorage setItem_localStorage update_conv' JSON_stringify_def to_String_def)

text \<open>A backend in fallback mode on \<open>localStorage\<close>: every observable has settled when
  the method returns.\<close>

lemma settle_on_localStorage:
  "settle self (on_localStorage f w) =
    (case f (localStorage w) of
       (Of v, ls) \<Rightarrow> (Emits v, w\<lparr>localStorage := ls\<rparr>)
     | (ThrowError e, ls) \<Rightarrow> (Errors e, w\<lparr>localStorage := ls\<rparr>)
     | (FromDatabase m sc, ls) \<Rightarrow> settle self (FromDatabase m sc, w\<lparr>localStorage := ls\<rparr>))"
  by (simp add: settle_def on_localStorage_def split: prod.split Observable.split)

lemma invoke_fallback:
  "fallback self = Some fb \<Longrightarrow> invoke c self w = delegate c fb w"
  by (cases c)
    (simp_all add: IndexedDBDatabase_getItem_def IndexedDBDatabase_setItem_def
      IndexedDBDatabase_removeItem_def IndexedDBDatabase_clear_def IndexedDBDatabase_keys_def
      IndexedDBDatabase_has_def IndexedDBDatabase_size_def)

lemma fallen_getItem:
  assumes "fallback self = Some (new_LocalStorageDatabase prefix)"
  shows "IndexedDBDatabase_getItem self key w = on_localStorage (LocalStorageDatabase_getItem key) w"
  using assms by (simp add: IndexedDBDatabase_getItem_def new_LocalStorageDatabase_def)

lemma fallen_setItem:
  assumes "fallback self = Some (new_LocalStorageDatabase prefix)"
  shows "IndexedDBDatabase_setItem self key data w = on_localStorage (LocalStorageDatabase_setItem key data) w"
  using assms by (simp add: IndexedDBDatabase_setItem_def new_LocalStorageDatabase_def)

lemma fallen_removeItem:
  assumes "fallback self = Some (new_LocalStorageDatabase prefix)"
  shows "IndexedDBDatabase_removeItem self key w = on_localStorage (LocalStorageDatabase_removeItem key) w"
  using assms by (simp add: IndexedDBDatabase_removeItem_def new_LocalStorageDatabase_def)

lemma map_of_delete_same: "map_of (AList.delete k al) k = None"
  by (simp add: delete_conv')

lemma map_of_update_same: "map_of (AList.update k v al) k = Some v"
  by (simp add: update_conv')

lemma getItem_value_v1_absent: "getItem_value_v1 JUndefined = Inr JNull"
  by (simp add: getItem_value_v1_def)

section \<open>The fallback over time\<close>

lemma subscribe_keeps:
  "backend (subscribe t obs s) = backend s" "listener (subscribe t obs s) = listener s"
  "env (subscribe t obs s) = env s"
  by (simp_all add: subscribe_def split: Observable.split connection.split)

lemma step_not_listening:
  assumes "listener s = None"
  shows "backend (step mk ev s) = backend s \<and> listener (step mk ev s) = None"
proof (cases ev)
  case (Call t c)
  then show ?thesis using assms by (simp add: subscribe_keeps split: prod.split)
next
  case (OpenEvent oe)
  then show ?thesis using assms by simp
next
  case Serve
  then show ?thesis using assms by (simp split: list.split prod.split)
qed

lemma steps_not_listening:
  assumes "listener s = None"
  shows "backend (steps mk evs s) = backend s \<and> listener (steps mk evs s) = None"
  using assms
proof (induction evs arbitrary: s)
  case Nil
  then show ?case by (simp add: steps_def)
next
  case (Cons ev evs)
  have "steps mk (ev # evs) s = steps mk evs (step mk ev s)" by (simp add: steps_def)
  then show ?case using Cons.IH [of "step mk ev s"] step_not_listening [OF Cons.prems, of mk ev] by simp
qed

lemma steps_append: "steps mk (xs @ ys) s = steps mk ys (steps mk xs s)"
  by (simp add: steps_def)

lemma boot_invariant:
  "listening prefix (boot mk prefix d st w) \<and> one_mode (boot mk prefix d st w)"
  by (simp add: boot_def new_IndexedDBDatabase_def connect_def setFallback_def listening_def one_mode_def
      split: option.split)

lemma step_invariant:
  assumes "listening prefix s \<and> one_mode s"
  shows "listening prefix (step mk ev s) \<and> one_mode (step mk ev s)"
proof (cases ev)
  case (Call t c)
  then show ?thesis using assms
    by (simp add: subscribe_keeps listening_def one_mode_def split: prod.split)
next
  case (OpenEvent oe)
  then show ?thesis using assms
    by (cases oe) (auto simp: listening_def one_mode_def on_open_event_def setFallback_def split: option.split)
next
  case Serve
  then show ?thesis using assms
    by (simp add: listening_def one_mode_def split: list.split prod.split)
qed

lemma steps_invariant:
  assumes "listening prefix s \<and> one_mode s"
  shows "listening prefix (steps mk evs s) \<and> one_mode (steps mk evs s)"
  using assms
proof (induction evs arbitrary: s)
  case Nil
  then show ?case by (simp add: steps_def)
next
  case (Cons ev evs)
  have "steps mk (ev # evs) s = steps mk evs (step mk ev s)" by (simp add: steps_def)
  then show ?case using Cons.IH [OF step_invariant [OF Cons.prems, of mk ev]] by simp
qed


lemma delegate_localStorage_settles:
  "(\<exists>v. fst (delegate c (new_LocalStorageDatabase prefix) w) = Of v)
     \<or> fst (delegate c (new_LocalStorageDatabase prefix) w) = ThrowError (Error ''Invalid data in localStorage.'')"
proof (cases c)
  case (GetItem key)
  then show ?thesis
    by (auto simp: new_LocalStorageDatabase_def on_localStorage_def getItem_localStorage
        split: option.split)
next
  case (SetItem key data)
  then show ?thesis
    by (simp add: new_LocalStorageDatabase_def on_localStorage_def setItem_localStorage)
next
  case (RemoveItem key)
  then show ?thesis
    by (simp add: new_LocalStorageDatabase_def on_localStorage_def removeItem_localStorage)
next
  case ClearAll
  then show ?thesis
    by (simp add: new_LocalStorageDatabase_def on_localStorage_def LocalStorageDatabase_clear_def)
next
  case Keys
  then show ?thesis
    by (simp add: new_LocalStorageDatabase_def on_localStorage_def LocalStorageDatabase_keys_def)
next
  case (Has key)
  then show ?thesis
    by (simp add: new_LocalStorageDatabase_def on_localStorage_def LocalStorageDatabase_has_def)
next
  case Size
  then show ?thesis
    by (simp add: new_LocalStorageDatabase_def on_localStorage_def LocalStorageDatabase_size_def)
qed

lemma call_on_localStorage_fallback:
  assumes "fallback (backend s) = Some (new_LocalStorageDatabase prefix)"
  shows "\<exists>out. notifications (step mk (Call t c) s) = notifications s @ [(t, out)]
     \<and> ((\<exists>v. out = Emits v) \<or> out = Errors (Error ''Invalid data in localStorage.''))"
proof -
  obtain obs w' where d: "delegate c (new_LocalStorageDatabase prefix) (env s) = (obs, w')"
    by (cases "delegate c (new_LocalStorageDatabase prefix) (env s)")
  then have shape: "(\<exists>v. obs = Of v) \<or> obs = ThrowError (Error ''Invalid data in localStorage.'')"
    using delegate_localStorage_settles [of c prefix "env s"] by simp
  have "invoke c (backend s) (env s) = (obs, w')"
    using assms d by (simp add: invoke_fallback)
  then show ?thesis using shape by (auto simp: subscribe_def)
qed

lemma failure_sets_fallback:
  assumes "listening prefix s" and "listener s \<noteq> None"
  shows "fallback (backend (step mk (OpenEvent (Failure err)) s)) = Some (mk prefix)
    \<and> listener (step mk (OpenEvent (Failure err)) s) = None"
  using assms by (auto simp: listening_def on_open_event_def setFallback_def)

lemma throw_sets_fallback:
  assumes "open_throws w \<noteq> None"
  shows "fallback (backend (boot mk prefix d st w)) = Some (mk prefix)
    \<and> listener (boot mk prefix d st w) = None"
  using assms by (auto simp: boot_def new_IndexedDBDatabase_def connect_def setFallback_def)


section \<open>Calls that overlap\<close>

lemma serve_idle: "transactions s = [] \<Longrightarrow> step mk Serve s = s"
  by simp

lemma serves_idle: "transactions s = [] \<Longrightarrow> steps mk (replicate n Serve) s = s"
  by (induction n) (simp_all add: steps_def)

lemma steps_Cons: "steps mk (ev # evs) s = steps mk evs (step mk ev s)"
  by (simp add: steps_def)

lemma steps_Nil: "steps mk [] s = s"
  by (simp add: steps_def)

text \<open>The transaction of \<open>setItem\<close>, run on a store.\<close>

lemma run_setItem:
  assumes "fallback self = None" and "data \<noteq> JUndefined" and "data \<noteq> JNull"
    and "IndexedDBDatabase_setItem self key data w = (FromDatabase m script, w')"
  shows "run (script store) st =
    (if \<not> has_getKey store \<and> map_of st key = Some JUndefined
     then (Errors (DOMException ''ConstraintError'' ''Key already exists in the object store''), st)
     else (Emits (JBool True), AList.update key (JObj [(dataPath, data)]) st))"
proof -
  have "script = (\<lambda>store.
              mergeMap (\<lambda>existingEntry.
                  requestEventsAndMapTo
                    (if existingEntry = JUndefined then Add (JObj [(dataPath, data)]) key
                     else Put (JObj [(dataPath, data)]) key)
                    (\<lambda>result. JBool True))
                (requestEventsAndMapTo (getKeyRequest store key) (\<lambda>result. result)))"
    using assms by (simp add: IndexedDBDatabase_setItem_def)
  then show ?thesis
    by (auto simp: requestEventsAndMapTo_def getKeyRequest_def in_keys_iff split: option.splits)
qed

lemma call_setItem_primary:
  assumes "fallback (backend s) = None" and "data \<noteq> JUndefined" and "data \<noteq> JNull"
  shows "\<exists>script. step mk (Call t (SetItem key data)) s =
      (case database (backend s) of
         Opening \<Rightarrow> s\<lparr>subscribers := subscribers s @ [(t, script)]\<rparr>
       | Opened \<Rightarrow> s\<lparr>transactions := transactions s @ [(t, script (store_api (env s)))]\<rparr>)
    \<and> (\<forall>store st. run (script store) st =
        (if \<not> has_getKey store \<and> map_of st key = Some JUndefined
         then (Errors (DOMException ''ConstraintError'' ''Key already exists in the object store''), st)
         else (Emits (JBool True), AList.update key (JObj [(dataPath, data)]) st)))"
proof -
  obtain m script where c: "IndexedDBDatabase_setItem (backend s) key data (env s) = (FromDatabase m script, env s)"
    using assms by (simp add: IndexedDBDatabase_setItem_def)
  have "\<forall>store st. run (script store) st =
        (if \<not> has_getKey store \<and> map_of st key = Some JUndefined
         then (Errors (DOMException ''ConstraintError'' ''Key already exists in the object store''), st)
         else (Emits (JBool True), AList.update key (JObj [(dataPath, data)]) st))"
    using run_setItem [OF assms c] by blast
  moreover have "step mk (Call t (SetItem key data)) s =
      (case database (backend s) of
         Opening \<Rightarrow> s\<lparr>subscribers := subscribers s @ [(t, script)]\<rparr>
       | Opened \<Rightarrow> s\<lparr>transactions := transactions s @ [(t, script (store_api (env s)))]\<rparr>)"
    using c by (simp add: subscribe_def split: connection.split)
  ultimately show ?thesis by blast
qed

lemma call_getItem_primary:
  assumes "fallback (backend s) = None"
  shows "\<exists>script. step mk (Call t (GetItem key)) s =
      (case database (backend s) of
         Opening \<Rightarrow> s\<lparr>subscribers := subscribers s @ [(t, script)]\<rparr>
       | Opened \<Rightarrow> s\<lparr>transactions := transactions s @ [(t, script (store_api (env s)))]\<rparr>)
    \<and> (\<forall>store st. run (script store) st =
        (Emits (getItem_value (case map_of st key of Some r \<Rightarrow> r | None \<Rightarrow> JUndefined)), st))"
proof -
  let ?script = "\<lambda>store :: IDBObjectStore. requestEventsAndMapTo (Get key) getItem_value"
  have c: "IndexedDBDatabase_getItem (backend s) key (env s) = (FromDatabase Readonly ?script, env s)"
    using assms by (simp add: IndexedDBDatabase_getItem_def)
  have "\<forall>store st. run (?script store) st =
        (Emits (getItem_value (case map_of st key of Some r \<Rightarrow> r | None \<Rightarrow> JUndefined)), st)"
    by (simp add: requestEventsAndMapTo_def)
  moreover have "step mk (Call t (GetItem key)) s =
      (case database (backend s) of
         Opening \<Rightarrow> s\<lparr>subscribers := subscribers s @ [(t, ?script)]\<rparr>
       | Opened \<Rightarrow> s\<lparr>transactions := transactions s @ [(t, ?script (store_api (env s)))]\<rparr>)"
    using c by (simp add: subscribe_def split: connection.split)
  ultimately show ?thesis by blast
qed

lemma serve_head:
  assumes "transactions s = (t, tx) # later" and "run tx (objectStore (env s)) = (out, st)"
  shows "step mk Serve s =
    s\<lparr>transactions := later, notifications := notifications s @ [(t, out)],
      env := (env s)\<lparr>objectStore := st\<rparr>\<rparr>"
  using assms by simp

lemma two_writes_primary:
  assumes prim: "fallback (backend s) = None" "database (backend s) = Opened" "transactions s = []"
    and vals: "v1 \<noteq> JNull" "v1 \<noteq> JUndefined" "v2 \<noteq> JNull" "v2 \<noteq> JUndefined"
    and ok: "has_getKey (store_api (env s)) \<or> map_of (objectStore (env s)) key \<noteq> Some JUndefined"
  shows "steps mk ([Call t1 (SetItem key v1)] @ replicate n Serve @ [Call t2 (SetItem key v2), Serve, Serve]) s =
    s\<lparr>notifications := notifications s @ [(t1, Emits (JBool True)), (t2, Emits (JBool True))],
      env := (env s)\<lparr>objectStore :=
        AList.update key (JObj [(dataPath, v2)]) (AList.update key (JObj [(dataPath, v1)]) (objectStore (env s)))\<rparr>\<rparr>"
proof -
  let ?api = "store_api (env s)"
  let ?st0 = "objectStore (env s)"
  let ?st1 = "AList.update key (JObj [(dataPath, v1)]) ?st0"
  let ?st2 = "AList.update key (JObj [(dataPath, v2)]) ?st1"
  obtain sc1 where a: "step mk (Call t1 (SetItem key v1)) s = s\<lparr>transactions := [(t1, sc1 ?api)]\<rparr>"
    and r1: "\<And>store st. run (sc1 store) st =
        (if \<not> has_getKey store \<and> map_of st key = Some JUndefined
         then (Errors (DOMException ''ConstraintError'' ''Key already exists in the object store''), st)
         else (Emits (JBool True), AList.update key (JObj [(dataPath, v1)]) st))"
    using call_setItem_primary [OF prim(1) vals(2) vals(1), of mk t1 key] prim(2,3) by auto
  let ?a = "s\<lparr>transactions := [(t1, sc1 ?api)]\<rparr>"
  have run1: "run (sc1 ?api) ?st0 = (Emits (JBool True), ?st1)"
    using r1 ok by auto
  let ?served1 = "s\<lparr>notifications := notifications s @ [(t1, Emits (JBool True))],
      env := (env s)\<lparr>objectStore := ?st1\<rparr>\<rparr>"
  have still: "s\<lparr>transactions := []\<rparr> = s"
    by (simp add: prim(3) [symmetric])
  have serve1: "step mk Serve ?a = ?served1"
    using run1 by (simp add: still)
  have second_ok: "has_getKey ?api \<or> map_of ?st1 key \<noteq> Some JUndefined"
    by (simp add: map_of_update_same)
  show ?thesis
  proof (cases n)
    case 0
    obtain sc2 where b: "step mk (Call t2 (SetItem key v2)) ?a =
        ?a\<lparr>transactions := [(t1, sc1 ?api), (t2, sc2 ?api)]\<rparr>"
      and r2: "\<And>store st. run (sc2 store) st =
        (if \<not> has_getKey store \<and> map_of st key = Some JUndefined
         then (Errors (DOMException ''ConstraintError'' ''Key already exists in the object store''), st)
         else (Emits (JBool True), AList.update key (JObj [(dataPath, v2)]) st))"
      using call_setItem_primary [of ?a v2 mk t2 key] prim vals by auto
    have run2: "run (sc2 ?api) ?st1 = (Emits (JBool True), ?st2)"
      using r2 second_ok by auto
    show ?thesis
      using 0 a b run1 run2 by (simp add: steps_def still)
  next
    case (Suc k)
    have idle: "steps mk (replicate k Serve) ?served1 = ?served1"
      using prim(3) by (simp add: serves_idle)
    obtain sc2 where b: "step mk (Call t2 (SetItem key v2)) ?served1 =
        ?served1\<lparr>transactions := [(t2, sc2 ?api)]\<rparr>"
      and r2: "\<And>store st. run (sc2 store) st =
        (if \<not> has_getKey store \<and> map_of st key = Some JUndefined
         then (Errors (DOMException ''ConstraintError'' ''Key already exists in the object store''), st)
         else (Emits (JBool True), AList.update key (JObj [(dataPath, v2)]) st))"
      using call_setItem_primary [of ?served1 v2 mk t2 key] prim vals by auto
    have run2: "run (sc2 ?api) ?st1 = (Emits (JBool True), ?st2)"
      using r2 second_ok by auto
    have "steps mk ([Call t1 (SetItem key v1)] @ replicate n Serve @ [Call t2 (SetItem key v2), Serve, Serve]) s
        = steps mk [Call t2 (SetItem key v2), Serve, Serve] (steps mk (replicate k Serve) (step mk Serve ?a))"
      using Suc a by (simp add: steps_append steps_Cons del: step.simps)
    also have "\<dots> = steps mk [Serve, Serve] (?served1\<lparr>transactions := [(t2, sc2 ?api)]\<rparr>)"
      using serve1 idle b by (simp add: steps_Cons del: step.simps)
    finally show ?thesis
      using run2 prim(3) by (simp add: steps_def still)
  qed
qed

lemma read_primary:
  assumes "fallback (backend s) = None" "database (backend s) = Opened" "transactions s = []"
  shows "notifications (steps mk [Call t (GetItem key), Serve] s) =
    notifications s @ [(t, Emits (getItem_value (case map_of (objectStore (env s)) key of Some r \<Rightarrow> r | None \<Rightarrow> JUndefined)))]"
proof -
  obtain sc where a: "step mk (Call t (GetItem key)) s = s\<lparr>transactions := [(t, sc (store_api (env s)))]\<rparr>"
    and r: "\<And>store st. run (sc store) st =
        (Emits (getItem_value (case map_of st key of Some r \<Rightarrow> r | None \<Rightarrow> JUndefined)), st)"
    using call_getItem_primary [OF assms(1), of mk t key] assms(2,3) by auto
  show ?thesis using a r by (simp add: steps_def)
qed

lemma two_writes_opening:
  assumes prim: "fallback (backend s) = None" "database (backend s) = Opening" "listener s = Some p"
      "subscribers s = []" "transactions s = []"
    and vals: "v1 \<noteq> JNull" "v1 \<noteq> JUndefined" "v2 \<noteq> JNull" "v2 \<noteq> JUndefined"
    and ok: "has_getKey (store_api (env s)) \<or> map_of (objectStore (env s)) key \<noteq> Some JUndefined"
  shows "steps mk [Call t1 (SetItem key v1), Call t2 (SetItem key v2), OpenEvent Success, Serve, Serve] s =
    s\<lparr>backend := (backend s)\<lparr>database := Opened\<rparr>, listener := None,
      subscribers := [], transactions := [],
      notifications := notifications s @ [(t1, Emits (JBool True)), (t2, Emits (JBool True))],
      env := (env s)\<lparr>objectStore :=
        AList.update key (JObj [(dataPath, v2)]) (AList.update key (JObj [(dataPath, v1)]) (objectStore (env s)))\<rparr>\<rparr>"
proof -
  let ?api = "store_api (env s)"
  let ?st0 = "objectStore (env s)"
  let ?st1 = "AList.update key (JObj [(dataPath, v1)]) ?st0"
  let ?st2 = "AList.update key (JObj [(dataPath, v2)]) ?st1"
  obtain sc1 where a: "step mk (Call t1 (SetItem key v1)) s = s\<lparr>subscribers := [(t1, sc1)]\<rparr>"
    and r1: "\<And>store st. run (sc1 store) st =
        (if \<not> has_getKey store \<and> map_of st key = Some JUndefined
         then (Errors (DOMException ''ConstraintError'' ''Key already exists in the object store''), st)
         else (Emits (JBool True), AList.update key (JObj [(dataPath, v1)]) st))"
    using call_setItem_primary [OF prim(1) vals(2) vals(1), of mk t1 key] prim(2,4) by auto
  let ?a = "s\<lparr>subscribers := [(t1, sc1)]\<rparr>"
  obtain sc2 where b: "step mk (Call t2 (SetItem key v2)) ?a = ?a\<lparr>subscribers := [(t1, sc1), (t2, sc2)]\<rparr>"
    and r2: "\<And>store st. run (sc2 store) st =
        (if \<not> has_getKey store \<and> map_of st key = Some JUndefined
         then (Errors (DOMException ''ConstraintError'' ''Key already exists in the object store''), st)
         else (Emits (JBool True), AList.update key (JObj [(dataPath, v2)]) st))"
    using call_setItem_primary [of ?a v2 mk t2 key] prim vals by auto
  have run1: "run (sc1 ?api) ?st0 = (Emits (JBool True), ?st1)"
    using r1 ok by auto
  have run2: "run (sc2 ?api) ?st1 = (Emits (JBool True), ?st2)"
    using r2 by (auto simp: map_of_update_same)
  have still: "s\<lparr>transactions := []\<rparr> = s" "s\<lparr>subscribers := []\<rparr> = s"
    by (simp_all add: prim(4) [symmetric] prim(5) [symmetric])
  show ?thesis
    using a b run1 run2 prim(3,5) by (simp add: steps_def on_open_event_def still)
qed

lemma two_writes_localStorage:
  assumes "fallback (backend s) = Some (new_LocalStorageDatabase prefix)" and "transactions s = []"
  shows "steps mk ([Call t1 (SetItem key v1)] @ replicate n Serve @ [Call t2 (SetItem key v2), Serve, Serve]) s =
    s\<lparr>notifications := notifications s @ [(t1, Emits (JBool True)), (t2, Emits (JBool True))],
      env := (env s)\<lparr>localStorage :=
        AList.update key (to_String (JSON_stringify v2))
          (AList.update key (to_String (JSON_stringify v1)) (localStorage (env s)))\<rparr>\<rparr>"
proof -
  let ?ls1 = "AList.update key (to_String (JSON_stringify v1)) (localStorage (env s))"
  let ?a = "s\<lparr>notifications := notifications s @ [(t1, Emits (JBool True))],
      env := (env s)\<lparr>localStorage := ?ls1\<rparr>\<rparr>"
  have a: "step mk (Call t1 (SetItem key v1)) s = ?a"
    using assms(1)
    by (simp add: fallen_setItem on_localStorage_def setItem_localStorage subscribe_def)
  have idle: "steps mk (replicate n Serve) ?a = ?a"
    using assms(2) by (simp add: serves_idle)
  have b: "step mk (Call t2 (SetItem key v2)) ?a =
      ?a\<lparr>notifications := notifications ?a @ [(t2, Emits (JBool True))],
        env := (env ?a)\<lparr>localStorage := AList.update key (to_String (JSON_stringify v2)) ?ls1\<rparr>\<rparr>"
    using assms(1)
    by (simp add: fallen_setItem on_localStorage_def setItem_localStorage subscribe_def)
  have "steps mk ([Call t1 (SetItem key v1)] @ replicate n Serve @ [Call t2 (SetItem key v2), Serve, Serve]) s
      = steps mk [Serve, Serve] (step mk (Call t2 (SetItem key v2)) (steps mk (replicate n Serve) (step mk (Call t1 (SetItem key v1)) s)))"
    by (simp add: steps_append steps_Cons steps_Nil del: step.simps)
  also have "\<dots> = steps mk [Serve, Serve] (?a\<lparr>notifications := notifications ?a @ [(t2, Emits (JBool True))],
        env := (env ?a)\<lparr>localStorage := AList.update key (to_String (JSON_stringify v2)) ?ls1\<rparr>\<rparr>)"
    using a idle b by (simp del: step.simps)
  finally show ?thesis using assms(2) by (simp add: steps_def)
qed

lemma read_localStorage:
  assumes "fallback (backend s) = Some (new_LocalStorageDatabase prefix)" and "transactions s = []"
    and "map_of (localStorage (env s)) key = Some text" and "JSON_parse text = Some v"
  shows "notifications (steps mk [Call t (GetItem key), Serve] s) = notifications s @ [(t, Emits v)]"
  using assms
  by (simp add: steps_def fallen_getItem on_localStorage_def getItem_localStorage subscribe_def)

section \<open>A call made before the open request fails\<close>

text \<open>A call made before the error event of the open request has subscribed to
  \<open>this.database\<close>. The error path sets the fallback and feeds nothing to that subject:
  the subscriber is still waiting, whatever events of the engine follow.\<close>

lemma engine_event_idle:
  assumes "listener s = None" and "transactions s = []"
  shows "step mk (OpenEvent oe) s = s" and "step mk Serve s = s"
  using assms by simp_all

lemma engine_events_idle:
  assumes "listener s = None" and "transactions s = []"
    and "\<forall>ev \<in> set evs. ev = Serve \<or> (\<exists>oe. ev = OpenEvent oe)"
  shows "steps mk evs s = s"
  using assms(3)
proof (induction evs)
  case Nil
  then show ?case by (simp add: steps_def)
next
  case (Cons ev evs)
  then have "step mk ev s = s" using engine_event_idle [OF assms(1,2)] by auto
  then show ?case using Cons by (simp add: steps_Cons del: step.simps)
qed

lemma early_subscriber_left_waiting:
  assumes "\<forall>ev \<in> set evs. ev = Serve \<or> (\<exists>oe. ev = OpenEvent oe)"
  shows "notifications (steps new_LocalStorageDatabase evs
      (steps new_LocalStorageDatabase
        [Call 1 (GetItem ''color''), OpenEvent (Failure (DOMException ''UnknownError'' ''Internal error''))] booted)) = []
    \<and> map fst (subscribers (steps new_LocalStorageDatabase evs
      (steps new_LocalStorageDatabase
        [Call 1 (GetItem ''color''), OpenEvent (Failure (DOMException ''UnknownError'' ''Internal error''))] booted))) = [1]"
proof -
  let ?s = "steps new_LocalStorageDatabase
        [Call 1 (GetItem ''color''), OpenEvent (Failure (DOMException ''UnknownError'' ''Internal error''))] booted"
  have s: "listener ?s = None \<and> transactions ?s = [] \<and> notifications ?s = []
      \<and> map fst (subscribers ?s) = [1]"
    by (simp add: booted_def boot_def new_IndexedDBDatabase_def connect_def example_world_def steps_def
        IndexedDBDatabase_getItem_def subscribe_def on_open_event_def setFallback_def)
  then have "steps new_LocalStorageDatabase evs ?s = ?s"
    using engine_events_idle [of ?s evs new_LocalStorageDatabase] assms by blast
  then show ?thesis using s by simp
qed

section \<open>The claims\<close>

text \<open>
  C9. On the embedded-database backend (connection registered, no fallback),
  \<open>getItem(key)\<close> unwraps the stored record only when it is an object with a field
  \<open>value\<close> whose content is neither \<open>null\<close> nor \<open>undefined\<close>, and then emits that content;
  any other record that is neither \<open>null\<close> nor \<open>undefined\<close> (a raw value, an object
  without the field, a wrapper around \<open>null\<close> or \<open>undefined\<close>) is emitted as it is; a
  stored \<open>null\<close> or \<open>undefined\<close> gives \<open>null\<close>. The store is left as it was.
\<close>

theorem getItem_dual_shape:
  assumes "fallback self = None" and "database self = Opened"
    and "map_of (objectStore w) key = Some stored"
  shows "settle self (IndexedDBDatabase_getItem self key w) =
    (Emits (case stored of
              JObj kvs \<Rightarrow>
                (case map_of kvs ''value'' of
                   None \<Rightarrow> stored
                 | Some content \<Rightarrow>
                     if content = JNull \<or> content = JUndefined then stored else content)
            | JUndefined \<Rightarrow> JNull
            | JNull \<Rightarrow> JNull
            | _ \<Rightarrow> stored), w)"
  using assms by (simp add: settle_getItem_primary getItem_value_shapes)

theorem getItem_dual_shape_witness:
  "fallback primary_backend = None \<and> database primary_backend = Opened
   \<and> map_of (objectStore example_world) ''wrapped'' = Some (JObj [(''value'', JStr ''blue'')])
   \<and> settle primary_backend (IndexedDBDatabase_getItem primary_backend ''wrapped'' example_world)
       = (Emits (JStr ''blue''), example_world)"
  using getItem_dual_shape [of primary_backend example_world "''wrapped''" "JObj [(''value'', JStr ''blue'')]"]
  by (simp add: primary_backend_def example_world_def)

text \<open>
  C6. A key the store does not hold (never written, or removed since) reads as \<open>null\<close>:
  \<open>getItem(key)\<close> emits \<open>null\<close> and leaves the store as it was, on the embedded-database
  backend, on \<open>LocalStorageDatabase\<close>, on a backend in fallback mode, and on the earlier
  \<open>IndexedDBDatabase\<close>. It never fails for the key being absent.
\<close>

theorem getItem_absent_key:
  "(fallback self = None \<and> database self = Opened \<and> map_of (objectStore w) key = None
      \<longrightarrow> settle self (IndexedDBDatabase_getItem self key w) = (Emits JNull, w))
   \<and> (map_of ls key = None \<longrightarrow> LocalStorageDatabase_getItem key ls = (Of JNull, ls))
   \<and> (fallback self = Some (new_LocalStorageDatabase prefix) \<and> map_of (localStorage w) key = None
      \<longrightarrow> settle self (IndexedDBDatabase_getItem self key w) = (Emits JNull, w))
   \<and> (database_v1 old = Opened_v1 \<and> map_of (objectStore w) key = None
      \<longrightarrow> settle_v1 old (IndexedDBDatabase_v1_getItem old key) w = (Emits JNull, w))"
proof -
  have primary: "settle self (IndexedDBDatabase_getItem self key w) = (Emits JNull, w)"
    if "fallback self = None" "database self = Opened" "map_of (objectStore w) key = None"
    using that by (simp add: settle_getItem_primary getItem_value_def)
  have direct: "LocalStorageDatabase_getItem key ls' = (Of JNull, ls')" if "map_of ls' key = None" for ls'
    using that by (simp add: getItem_localStorage)
  have fallen: "settle self (IndexedDBDatabase_getItem self key w) = (Emits JNull, w)"
    if "fallback self = Some (new_LocalStorageDatabase prefix)" "map_of (localStorage w) key = None"
    using that by (simp add: fallen_getItem settle_on_localStorage direct)
  have older: "settle_v1 old (IndexedDBDatabase_v1_getItem old key) w = (Emits JNull, w)"
    if "database_v1 old = Opened_v1" "map_of (objectStore w) key = None"
    using that by (simp add: settle_getItem_v1 getItem_value_v1_def)
  from primary direct fallen older show ?thesis by blast
qed

theorem getItem_absent_key_witness:
  "settle primary_backend (IndexedDBDatabase_getItem primary_backend ''unknown'' example_world) = (Emits JNull, example_world)
   \<and> LocalStorageDatabase_getItem ''unknown'' (localStorage example_world) = (Of JNull, localStorage example_world)
   \<and> settle fallen_backend (IndexedDBDatabase_getItem fallen_backend ''unknown'' example_world) = (Emits JNull, example_world)
   \<and> settle_v1 opened_backend_v1 (IndexedDBDatabase_v1_getItem opened_backend_v1 ''unknown'') example_world = (Emits JNull, example_world)"
  using getItem_absent_key [of primary_backend example_world "''unknown''" "localStorage example_world" None opened_backend_v1]
    getItem_absent_key [of fallen_backend example_world "''unknown''" "[]" None opened_backend_v1]
  by (simp add: primary_backend_def fallen_backend_def example_world_def opened_backend_v1_def)

text \<open>
  C8. On the \<open>localStorage\<close> backend, a stored text that \<open>JSON.parse\<close> rejects makes
  \<open>getItem(key)\<close> return \<open>throwError(new Error('Invalid data in localStorage.'))\<close>: the
  failure is the error notification of the observable, for a direct caller and for the
  caller of a backend in fallback mode alike.
\<close>

theorem getItem_invalid_text:
  assumes "Storage_getItem (localStorage w) key = Some text" and "JSON_parse text = None"
  shows "LocalStorageDatabase_getItem key (localStorage w) =
      (ThrowError (Error ''Invalid data in localStorage.''), localStorage w)
    \<and> (fallback self = Some (new_LocalStorageDatabase prefix) \<longrightarrow>
        settle self (IndexedDBDatabase_getItem self key w) =
          (Errors (Error ''Invalid data in localStorage.''), w))"
  using assms
  by (simp add: fallen_getItem settle_on_localStorage getItem_localStorage Storage_getItem_def)

theorem getItem_invalid_text_witness:
  "Storage_getItem (localStorage example_world) ''bad'' = Some ''{oops''
   \<and> JSON_parse ''{oops'' = None
   \<and> fallback fallen_backend = Some (new_LocalStorageDatabase None)
   \<and> LocalStorageDatabase_getItem ''bad'' (localStorage example_world) =
      (ThrowError (Error ''Invalid data in localStorage.''), localStorage example_world)
   \<and> settle fallen_backend (IndexedDBDatabase_getItem fallen_backend ''bad'' example_world) =
      (Errors (Error ''Invalid data in localStorage.''), example_world)"
proof -
  have stored: "Storage_getItem (localStorage example_world) ''bad'' = Some ''{oops''"
    by (simp add: Storage_getItem_def example_world_def)
  have bad: "JSON_parse ''{oops'' = None"
    by code_simp
  have fb: "fallback fallen_backend = Some (new_LocalStorageDatabase None)"
    by (simp add: fallen_backend_def)
  show ?thesis
    using getItem_invalid_text [OF stored bad, of fallen_backend None] stored bad fb by simp
qed

text \<open>
  C3, as stated, fails on the embedded-database backend: on an engine without \<open>getKey\<close>
  whose store holds \<open>undefined\<close> under the key \<open>void\<close> (written through the native API),
  \<open>setItem('void', 'blue')\<close> reads the record to learn whether the key exists, takes the
  key for absent, calls \<open>add\<close> and ends in a \<open>ConstraintError\<close>; the store is unchanged
  and \<open>getItem('void')\<close> emits \<open>null\<close>, not the value.
\<close>

theorem setItem_fails_on_foreign_undefined:
  "settle primary_backend (IndexedDBDatabase_setItem primary_backend ''void'' (JStr ''blue'') example_world)
      = (Errors (DOMException ''ConstraintError'' ''Key already exists in the object store''), example_world)
   \<and> settle primary_backend (IndexedDBDatabase_getItem primary_backend ''void'' example_world)
      = (Emits JNull, example_world)"
  by (simp add: settle_setItem_primary settle_getItem_primary primary_backend_def example_world_def
      older_store_def getItem_value_def)

text \<open>
  C3, amended. Round trip. On the embedded-database backend, for every key and every
  value that is neither \<open>null\<close> nor \<open>undefined\<close>, \<open>setItem\<close> settles successfully in every
  store but one, an engine without \<open>getKey\<close> holding the record \<open>undefined\<close> under the
  key; and a \<open>setItem\<close> that settles successfully is followed by a \<open>getItem\<close> that emits
  the very value. On \<open>LocalStorageDatabase\<close>, directly or as the fallback of the backend,
  \<open>setItem\<close> succeeds and \<open>getItem\<close> emits the very value for every serializable value:
  one built from \<open>null\<close>, booleans, integers that a double holds exactly, strings of
  8-bit characters, arrays, and objects with distinct property names.
\<close>

theorem setItem_then_getItem:
  "(fallback self = None \<and> database self = Opened \<and> data \<noteq> JNull \<and> data \<noteq> JUndefined \<longrightarrow>
      ((fst (settle self (IndexedDBDatabase_setItem self key data w)) = Emits (JBool True))
          = (has_getKey (store_api w) \<or> map_of (objectStore w) key \<noteq> Some JUndefined))
      \<and> (fst (settle self (IndexedDBDatabase_setItem self key data w)) = Emits (JBool True) \<longrightarrow>
          fst (settle self (IndexedDBDatabase_getItem self key
                (snd (settle self (IndexedDBDatabase_setItem self key data w))))) = Emits data))
   \<and> (serializable data \<longrightarrow>
        fst (LocalStorageDatabase_setItem key data ls) = Of (JBool True)
        \<and> fst (LocalStorageDatabase_getItem key (snd (LocalStorageDatabase_setItem key data ls))) = Of data)
   \<and> (fallback self = Some (new_LocalStorageDatabase prefix) \<and> serializable data \<longrightarrow>
        fst (settle self (IndexedDBDatabase_setItem self key data w)) = Emits (JBool True)
        \<and> fst (settle self (IndexedDBDatabase_getItem self key
                (snd (settle self (IndexedDBDatabase_setItem self key data w))))) = Emits data)"
proof -
  have primary: "((fst (settle self (IndexedDBDatabase_setItem self key data w)) = Emits (JBool True))
          = (has_getKey (store_api w) \<or> map_of (objectStore w) key \<noteq> Some JUndefined))
      \<and> (fst (settle self (IndexedDBDatabase_setItem self key data w)) = Emits (JBool True) \<longrightarrow>
          fst (settle self (IndexedDBDatabase_getItem self key
                (snd (settle self (IndexedDBDatabase_setItem self key data w))))) = Emits data)"
    if "fallback self = None" "database self = Opened" "data \<noteq> JNull" "data \<noteq> JUndefined"
    using that
    by (simp add: settle_setItem_primary settle_getItem_primary map_of_update_same getItem_value_wrapper)
  have direct: "fst (LocalStorageDatabase_setItem key data ls) = Of (JBool True)
        \<and> fst (LocalStorageDatabase_getItem key (snd (LocalStorageDatabase_setItem key data ls))) = Of data"
    if "serializable data"
    using that by (simp add: getItem_after_setItem_localStorage) (simp add: setItem_localStorage)
  have fallen: "fst (settle self (IndexedDBDatabase_setItem self key data w)) = Emits (JBool True)
        \<and> fst (settle self (IndexedDBDatabase_getItem self key
                (snd (settle self (IndexedDBDatabase_setItem self key data w))))) = Emits data"
    if fb: "fallback self = Some (new_LocalStorageDatabase prefix)" and sd: "serializable data"
  proof -
    have set: "settle self (IndexedDBDatabase_setItem self key data w) =
        (Emits (JBool True), w\<lparr>localStorage := snd (LocalStorageDatabase_setItem key data (localStorage w))\<rparr>)"
      using fb by (simp add: fallen_setItem settle_on_localStorage setItem_localStorage)
    show ?thesis
      using fb getItem_after_setItem_localStorage [OF sd, of key "localStorage w"]
      by (simp add: set fallen_getItem settle_on_localStorage)
  qed
  from primary direct fallen show ?thesis by blast
qed

theorem setItem_then_getItem_witness:
  "fst (settle primary_backend (IndexedDBDatabase_setItem primary_backend ''raw'' (JArr [JNum 1, JNum 2, JNum 3]) example_world))
      = Emits (JBool True)
   \<and> fst (settle primary_backend (IndexedDBDatabase_getItem primary_backend ''raw''
        (snd (settle primary_backend (IndexedDBDatabase_setItem primary_backend ''raw'' (JArr [JNum 1, JNum 2, JNum 3]) example_world)))))
      = Emits (JArr [JNum 1, JNum 2, JNum 3])
   \<and> fst (settle primary_backend (IndexedDBDatabase_setItem primary_backend ''void'' (JStr ''blue'') example_world))
      \<noteq> Emits (JBool True)
   \<and> serializable (JObj [(''name'', JStr ''test'')])
   \<and> fst (LocalStorageDatabase_getItem ''test''
        (snd (LocalStorageDatabase_setItem ''test'' (JObj [(''name'', JStr ''test'')]) (localStorage example_world))))
      = Of (JObj [(''name'', JStr ''test'')])
   \<and> fst (settle fallen_backend (IndexedDBDatabase_getItem fallen_backend ''test''
        (snd (settle fallen_backend (IndexedDBDatabase_setItem fallen_backend ''test'' (JObj [(''name'', JStr ''test'')]) example_world)))))
      = Emits (JObj [(''name'', JStr ''test'')])"
  using setItem_then_getItem [of primary_backend "JArr [JNum 1, JNum 2, JNum 3]" "''raw''" example_world
      "localStorage example_world" None]
    setItem_then_getItem [of primary_backend "JStr ''blue''" "''void''" example_world
      "localStorage example_world" None]
    setItem_then_getItem [of fallen_backend "JObj [(''name'', JStr ''test'')]" "''test''" example_world
      "localStorage example_world" None]
  by (simp add: primary_backend_def fallen_backend_def example_world_def older_store_def)

text \<open>
  C5. Storing \<open>undefined\<close> or \<open>null\<close> is meant to write nothing. \<open>IndexedDBDatabase\<close>
  returns \<open>of(true)\<close> before any transaction (lemma \<open>settle_setItem_absence\<close>);
  \<open>LocalStorageDatabase.setItem\<close> has no such test. Evaluated on an empty
  \<open>localStorage\<close>: \<open>setItem('test', undefined)\<close> stores the text \<open>undefined\<close> under the key,
  and the \<open>getItem('test')\<close> that follows fails with \<open>Invalid data in localStorage.\<close>;
  \<open>setItem('test', null)\<close> stores the text \<open>null\<close> under the key, an entry that
  \<open>getItem\<close> reads as \<open>null\<close>.
\<close>

theorem setItem_undefined_localStorage:
  "LocalStorageDatabase_setItem ''test'' JUndefined [] = (Of (JBool True), [(''test'', ''undefined'')])
   \<and> LocalStorageDatabase_getItem ''test'' [(''test'', ''undefined'')] =
        (ThrowError (Error ''Invalid data in localStorage.''), [(''test'', ''undefined'')])
   \<and> LocalStorageDatabase_setItem ''test'' JNull [] = (Of (JBool True), [(''test'', ''null'')])
   \<and> LocalStorageDatabase_getItem ''test'' [(''test'', ''null'')] = (Of JNull, [(''test'', ''null'')])"
proof -
  have "JSON_parse ''undefined'' = None" by code_simp
  moreover have "JSON_parse ''null'' = Some JNull" by code_simp
  ultimately show ?thesis
    by (simp add: getItem_localStorage setItem_localStorage JSON_stringify_def to_String_def)
qed

text \<open>
  C10, as stated, fails on the earlier \<open>IndexedDBDatabase\<close>: under the key \<open>other\<close> the
  store holds an object without the field \<open>value\<close>; \<open>removeItem('other')\<close> reads it as
  \<open>null\<close>, deletes nothing and emits \<open>true\<close>; the record is still there.
\<close>

theorem removeItem_v1_keeps_record:
  "settle_v1 opened_backend_v1 (IndexedDBDatabase_v1_removeItem opened_backend_v1 ''other'') example_world
      = (Emits (JBool True), example_world)
   \<and> map_of (objectStore example_world) ''other'' = Some (JObj [(''test'', JStr ''value'')])"
  by (simp add: settle_removeItem_v1 opened_backend_v1_def example_world_def getItem_value_v1_def
      dataPath_def nullish_def)

text \<open>
  C10, amended. On the embedded-database backend, on \<open>LocalStorageDatabase\<close> and on a
  backend in fallback mode, \<open>removeItem(key)\<close> emits \<open>true\<close> whether or not the key was
  there and whatever the record; afterwards the store holds nothing under the key,
  \<open>getItem(key)\<close> emits \<open>null\<close> and (embedded database) \<open>has(key)\<close> emits \<open>false\<close>. On the
  earlier \<open>IndexedDBDatabase\<close>, when \<open>removeItem(key)\<close> emits \<open>true\<close>, the record has been
  deleted if \<open>getItem\<close> read it as neither \<open>null\<close> nor \<open>undefined\<close> and the store is
  untouched otherwise; either way the \<open>getItem(key)\<close> that follows emits \<open>null\<close> or
  \<open>undefined\<close>.
\<close>

theorem removeItem_then_getItem:
  "(fallback self = None \<and> database self = Opened \<longrightarrow>
      fst (settle self (IndexedDBDatabase_removeItem self key w)) = Emits (JBool True)
      \<and> map_of (objectStore (snd (settle self (IndexedDBDatabase_removeItem self key w)))) key = None
      \<and> fst (settle self (IndexedDBDatabase_getItem self key
            (snd (settle self (IndexedDBDatabase_removeItem self key w))))) = Emits JNull
      \<and> fst (settle self (IndexedDBDatabase_has self key
            (snd (settle self (IndexedDBDatabase_removeItem self key w))))) = Emits (JBool False))
   \<and> (fst (LocalStorageDatabase_removeItem key ls) = Of (JBool True)
      \<and> map_of (snd (LocalStorageDatabase_removeItem key ls)) key = None
      \<and> fst (LocalStorageDatabase_getItem key (snd (LocalStorageDatabase_removeItem key ls))) = Of JNull)
   \<and> (fallback self = Some (new_LocalStorageDatabase prefix) \<longrightarrow>
      fst (settle self (IndexedDBDatabase_removeItem self key w)) = Emits (JBool True)
      \<and> map_of (localStorage (snd (settle self (IndexedDBDatabase_removeItem self key w)))) key = None
      \<and> fst (settle self (IndexedDBDatabase_getItem self key
            (snd (settle self (IndexedDBDatabase_removeItem self key w))))) = Emits JNull)
   \<and> (database_v1 old = Opened_v1
        \<and> fst (settle_v1 old (IndexedDBDatabase_v1_removeItem old key) w) = Emits (JBool True) \<longrightarrow>
      (\<exists>v. fst (settle_v1 old (IndexedDBDatabase_v1_getItem old key) w) = Emits v
         \<and> snd (settle_v1 old (IndexedDBDatabase_v1_removeItem old key) w) =
             (if nullish v then w else w\<lparr>objectStore := AList.delete key (objectStore w)\<rparr>))
      \<and> (\<exists>v'. fst (settle_v1 old (IndexedDBDatabase_v1_getItem old key)
                  (snd (settle_v1 old (IndexedDBDatabase_v1_removeItem old key) w))) = Emits v'
          \<and> nullish v'))"
proof -
  have primary: "fst (settle self (IndexedDBDatabase_removeItem self key w)) = Emits (JBool True)
      \<and> map_of (objectStore (snd (settle self (IndexedDBDatabase_removeItem self key w)))) key = None
      \<and> fst (settle self (IndexedDBDatabase_getItem self key
            (snd (settle self (IndexedDBDatabase_removeItem self key w))))) = Emits JNull
      \<and> fst (settle self (IndexedDBDatabase_has self key
            (snd (settle self (IndexedDBDatabase_removeItem self key w))))) = Emits (JBool False)"
    if "fallback self = None" "database self = Opened"
    using that
    by (simp add: settle_removeItem_primary settle_getItem_primary settle_has_primary
        map_of_delete_same getItem_value_def in_keys_iff)
  have direct: "fst (LocalStorageDatabase_removeItem key ls') = Of (JBool True)
      \<and> map_of (snd (LocalStorageDatabase_removeItem key ls')) key = None
      \<and> fst (LocalStorageDatabase_getItem key (snd (LocalStorageDatabase_removeItem key ls'))) = Of JNull" for ls'
    by (simp add: removeItem_localStorage getItem_localStorage map_of_delete_same)
  have fallen: "fst (settle self (IndexedDBDatabase_removeItem self key w)) = Emits (JBool True)
      \<and> map_of (localStorage (snd (settle self (IndexedDBDatabase_removeItem self key w)))) key = None
      \<and> fst (settle self (IndexedDBDatabase_getItem self key
            (snd (settle self (IndexedDBDatabase_removeItem self key w))))) = Emits JNull"
    if "fallback self = Some (new_LocalStorageDatabase prefix)"
    using that
    by (simp add: fallen_removeItem fallen_getItem settle_on_localStorage removeItem_localStorage
        getItem_localStorage map_of_delete_same)
  have older: "(\<exists>v. fst (settle_v1 old (IndexedDBDatabase_v1_getItem old key) w) = Emits v
         \<and> snd (settle_v1 old (IndexedDBDatabase_v1_removeItem old key) w) =
             (if nullish v then w else w\<lparr>objectStore := AList.delete key (objectStore w)\<rparr>))
      \<and> (\<exists>v'. fst (settle_v1 old (IndexedDBDatabase_v1_getItem old key)
                  (snd (settle_v1 old (IndexedDBDatabase_v1_removeItem old key) w))) = Emits v'
          \<and> nullish v')"
    if op: "database_v1 old = Opened_v1"
      and ok: "fst (settle_v1 old (IndexedDBDatabase_v1_removeItem old key) w) = Emits (JBool True)"
  proof -
    let ?stored = "case map_of (objectStore w) key of Some r \<Rightarrow> r | None \<Rightarrow> JUndefined"
    obtain v where v: "getItem_value_v1 ?stored = Inr v"
      using ok op by (cases "getItem_value_v1 ?stored") (simp_all add: settle_removeItem_v1)
    show ?thesis
    proof (cases "nullish v")
      case True
      then show ?thesis using op v by (auto simp: settle_removeItem_v1 settle_getItem_v1)
    next
      case False
      then show ?thesis using op v
        by (auto simp: settle_removeItem_v1 settle_getItem_v1 map_of_delete_same
            getItem_value_v1_absent nullish_def)
    qed
  qed
  from primary direct fallen older show ?thesis by blast
qed

theorem removeItem_then_getItem_witness:
  "fst (settle primary_backend (IndexedDBDatabase_getItem primary_backend ''other''
        (snd (settle primary_backend (IndexedDBDatabase_removeItem primary_backend ''other'' example_world)))))
      = Emits JNull
   \<and> map_of (objectStore (snd (settle primary_backend (IndexedDBDatabase_removeItem primary_backend ''other'' example_world))))
        ''other'' = None
   \<and> fst (settle fallen_backend (IndexedDBDatabase_getItem fallen_backend ''bad''
        (snd (settle fallen_backend (IndexedDBDatabase_removeItem fallen_backend ''bad'' example_world)))))
      = Emits JNull
   \<and> fst (settle_v1 opened_backend_v1 (IndexedDBDatabase_v1_removeItem opened_backend_v1 ''wrapped'') example_world)
      = Emits (JBool True)
   \<and> map_of (objectStore (snd (settle_v1 opened_backend_v1 (IndexedDBDatabase_v1_removeItem opened_backend_v1 ''wrapped'') example_world)))
        ''wrapped'' = None"
  using removeItem_then_getItem [of primary_backend "''other''" example_world "localStorage example_world" None
      opened_backend_v1]
    removeItem_then_getItem [of fallen_backend "''bad''" example_world "localStorage example_world" None
      opened_backend_v1]
    removeItem_then_getItem [of primary_backend "''wrapped''" example_world "localStorage example_world" None
      opened_backend_v1]
  by (simp add: primary_backend_def fallen_backend_def opened_backend_v1_def example_world_def
      settle_removeItem_v1 settle_getItem_v1 getItem_value_v1_def dataPath_def nullish_def)

text \<open>
  C1, as stated, fails on the earlier \<open>IndexedDBDatabase\<close>, which has no fallback: after
  the error event of the open request, \<open>getItem\<close> settles with the error
  \<open>IndexedDB connection issue : ...\<close>, the connection failure itself; and where
  \<open>indexedDB.open\<close> throws, the constructor throws.
\<close>

theorem connection_failure_v1_surfaces:
  "new_IndexedDBDatabase_v1 None example_world = Inr \<lparr> dbName_v1 = ''ngStorage'', database_v1 = Opening_v1 \<rparr>
   \<and> settle_v1
        (on_open_event_v1 (Failure (DOMException ''UnknownError'' ''Internal error''))
          \<lparr> dbName_v1 = ''ngStorage'', database_v1 = Opening_v1 \<rparr>)
        (IndexedDBDatabase_v1_getItem
          (on_open_event_v1 (Failure (DOMException ''UnknownError'' ''Internal error''))
            \<lparr> dbName_v1 = ''ngStorage'', database_v1 = Opening_v1 \<rparr>) ''wrapped'')
        example_world
      = (Errors (Error ''IndexedDB connection issue : Internal error.''), example_world)
   \<and> new_IndexedDBDatabase_v1 None private_world = Inl (DOMException ''SecurityError'' ''The operation is insecure'')"
  by (simp add: new_IndexedDBDatabase_v1_def example_world_def private_world_def on_open_event_v1_def
      settle_v1_def IndexedDBDatabase_v1_getItem_def)

text \<open>
  C1, amended. On the \<open>IndexedDBDatabase\<close> that has a fallback: if \<open>indexedDB.open\<close>
  throws, or if the open request ends in an error event while the backend still
  listens to it (whatever was called before), the fallback is set to
  \<open>new LocalStorageDatabase(prefix)\<close> and stays set; every contract operation called
  from then on is the fallback's, with the fallback's result; and with the
  \<open>localStorage\<close> backend as fallback each such call is notified at once, with a value
  or with \<open>Invalid data in localStorage.\<close>, never with the connection failure.
\<close>

theorem connection_failure_falls_back:
  assumes "s0 = boot mk prefix dbName0 storeName0 w"
    and "(open_throws w \<noteq> None \<and> s1 = s0)
       \<or> (listener (steps mk evs s0) \<noteq> None \<and> s1 = step mk (OpenEvent (Failure err)) (steps mk evs s0))"
    and "s = steps mk later s1"
  shows "fallback (backend s) = Some (mk prefix)
    \<and> (\<forall>c w'. invoke c (backend s) w' = delegate c (mk prefix) w')
    \<and> (mk = new_LocalStorageDatabase \<longrightarrow>
         (\<forall>t c. \<exists>out. notifications (step mk (Call t c) s) = notifications s @ [(t, out)]
            \<and> ((\<exists>v. out = Emits v) \<or> out = Errors (Error ''Invalid data in localStorage.''))))"
proof -
  have "fallback (backend s1) = Some (mk prefix) \<and> listener s1 = None"
    using assms(2)
  proof
    assume "open_throws w \<noteq> None \<and> s1 = s0"
    then show ?thesis using throw_sets_fallback [of w mk prefix dbName0 storeName0] assms(1) by simp
  next
    assume a: "listener (steps mk evs s0) \<noteq> None \<and> s1 = step mk (OpenEvent (Failure err)) (steps mk evs s0)"
    have "listening prefix (steps mk evs s0)"
      using steps_invariant [OF boot_invariant, of prefix mk evs mk dbName0 storeName0 w] assms(1) by simp
    then show ?thesis using a failure_sets_fallback [of prefix "steps mk evs s0" mk err] by simp
  qed
  then have fb: "fallback (backend s) = Some (mk prefix)"
    using steps_not_listening [of s1 mk later] assms(3) by simp
  show ?thesis
    using fb call_on_localStorage_fallback [of s prefix new_LocalStorageDatabase]
    by (auto simp: invoke_fallback)
qed

theorem connection_failure_falls_back_witness:
  "open_throws private_world \<noteq> None
   \<and> fallback (backend (steps new_LocalStorageDatabase [Serve] booted_private)) = Some (new_LocalStorageDatabase None)
   \<and> listener (steps new_LocalStorageDatabase [Call 1 (GetItem ''color'')] booted) \<noteq> None
   \<and> fallback (backend (steps new_LocalStorageDatabase [Serve]
        (step new_LocalStorageDatabase (OpenEvent (Failure (DOMException ''UnknownError'' ''Internal error'')))
          (steps new_LocalStorageDatabase [Call 1 (GetItem ''color'')] booted))))
      = Some (new_LocalStorageDatabase None)
   \<and> notifications (step new_LocalStorageDatabase (Call 2 (GetItem ''color'')) (steps new_LocalStorageDatabase [Serve] booted_private))
      = [(2, Emits (JStr ''red''))]"
proof -
  have throws: "open_throws private_world \<noteq> None"
    by (simp add: private_world_def)
  have listens: "listener (steps new_LocalStorageDatabase [Call 1 (GetItem ''color'')] booted) \<noteq> None"
    by (simp add: booted_def boot_def new_IndexedDBDatabase_def connect_def example_world_def steps_def
        IndexedDBDatabase_getItem_def subscribe_def)
  have red: "JSON_parse [CHR 0x22, CHR ''r'', CHR ''e'', CHR ''d'', CHR 0x22] = Some (JStr ''red'')"
    by code_simp
  have first: "fallback (backend (steps new_LocalStorageDatabase [Serve] booted_private)) = Some (new_LocalStorageDatabase None)"
    using connection_failure_falls_back [where mk = new_LocalStorageDatabase and prefix = None
        and ?dbName0.0 = "''ngStorage''" and ?storeName0.0 = "''localStorage''" and w = private_world
        and ?s0.0 = booted_private and ?s1.0 = booted_private and later = "[Serve]"
        and s = "steps new_LocalStorageDatabase [Serve] booted_private"] throws
    by (simp add: booted_private_def)
  have second: "fallback (backend (steps new_LocalStorageDatabase [Serve]
        (step new_LocalStorageDatabase (OpenEvent (Failure (DOMException ''UnknownError'' ''Internal error'')))
          (steps new_LocalStorageDatabase [Call 1 (GetItem ''color'')] booted))))
      = Some (new_LocalStorageDatabase None)"
    using connection_failure_falls_back [where mk = new_LocalStorageDatabase and prefix = None
        and ?dbName0.0 = "''ngStorage''" and ?storeName0.0 = "''localStorage''" and w = example_world
        and ?s0.0 = booted and evs = "[Call 1 (GetItem ''color'')]"
        and err = "DOMException ''UnknownError'' ''Internal error''"
        and ?s1.0 = "step new_LocalStorageDatabase (OpenEvent (Failure (DOMException ''UnknownError'' ''Internal error'')))
          (steps new_LocalStorageDatabase [Call 1 (GetItem ''color'')] booted)"
        and later = "[Serve]"
        and s = "steps new_LocalStorageDatabase [Serve]
        (step new_LocalStorageDatabase (OpenEvent (Failure (DOMException ''UnknownError'' ''Internal error'')))
          (steps new_LocalStorageDatabase [Call 1 (GetItem ''color'')] booted))"] listens
    by (simp add: booted_def)
  have read: "notifications (step new_LocalStorageDatabase (Call 2 (GetItem ''color'')) (steps new_LocalStorageDatabase [Serve] booted_private))
      = [(2, Emits (JStr ''red''))]"
    using red
    by (simp add: booted_private_def boot_def new_IndexedDBDatabase_def connect_def private_world_def
        example_world_def steps_def setFallback_def fallen_getItem on_localStorage_def getItem_localStorage
        subscribe_def)
  show ?thesis using throws listens first second read by simp
qed

text \<open>
  C2. In every state a backend reaches from its constructor by calls, events of the open
  request and served transactions: once the fallback is set, it is the same fallback
  after any further events, the connection is never registered (\<open>database\<close> stays
  empty), and each of \<open>getItem\<close>, \<open>setItem\<close>, \<open>removeItem\<close>, \<open>clear\<close>, \<open>keys\<close>, \<open>has\<close> and
  \<open>size\<close> is the fallback's method, whatever the arguments and the state of the browser.
\<close>

theorem fallback_permanent:
  assumes "s = steps mk evs (boot mk prefix dbName0 storeName0 w)"
    and "fallback (backend s) = Some fb"
  shows "fallback (backend (steps mk later s)) = Some fb
    \<and> database (backend (steps mk later s)) = Opening
    \<and> (\<forall>c w'. invoke c (backend (steps mk later s)) w' = delegate c fb w')"
proof -
  have "listening prefix s \<and> one_mode s"
    unfolding assms(1) by (rule steps_invariant [OF boot_invariant])
  with assms(2) have quiet: "listener s = None" and op: "database (backend s) = Opening"
    by (auto simp: one_mode_def)
  have same: "backend (steps mk later s) = backend s"
    using steps_not_listening [OF quiet, of mk later] by simp
  show ?thesis using same assms(2) op by (simp add: invoke_fallback)
qed

theorem fallback_permanent_witness:
  "fallback (backend (steps new_LocalStorageDatabase [Call 1 (GetItem ''color''), OpenEvent (Failure (DOMException ''UnknownError'' ''Internal error''))] booted))
      = Some (new_LocalStorageDatabase None)
   \<and> fallback (backend (steps new_LocalStorageDatabase [OpenEvent Success, Call 2 (SetItem ''color'' (JStr ''blue'')), Serve]
        (steps new_LocalStorageDatabase [Call 1 (GetItem ''color''), OpenEvent (Failure (DOMException ''UnknownError'' ''Internal error''))] booted)))
      = Some (new_LocalStorageDatabase None)
   \<and> database (backend (steps new_LocalStorageDatabase [OpenEvent Success, Call 2 (SetItem ''color'' (JStr ''blue'')), Serve]
        (steps new_LocalStorageDatabase [Call 1 (GetItem ''color''), OpenEvent (Failure (DOMException ''UnknownError'' ''Internal error''))] booted)))
      = Opening"
proof -
  let ?evs = "[Call 1 (GetItem ''color''), OpenEvent (Failure (DOMException ''UnknownError'' ''Internal error''))]"
  have s: "steps new_LocalStorageDatabase ?evs booted =
      steps new_LocalStorageDatabase ?evs (boot new_LocalStorageDatabase None ''ngStorage'' ''localStorage'' example_world)"
    by (simp add: booted_def)
  have fb: "fallback (backend (steps new_LocalStorageDatabase ?evs booted)) = Some (new_LocalStorageDatabase None)"
    by (simp add: booted_def boot_def new_IndexedDBDatabase_def connect_def example_world_def steps_def
        IndexedDBDatabase_getItem_def subscribe_def on_open_event_def setFallback_def)
  show ?thesis
    using fallback_permanent [OF s fb, of "[OpenEvent Success, Call 2 (SetItem ''color'' (JStr ''blue'')), Serve]"] fb
    by simp
qed

text \<open>
  C4, as stated, fails on the embedded-database backend: on an engine without \<open>getKey\<close>
  whose store holds \<open>undefined\<close> under the key \<open>void\<close> (written through the native API),
  \<open>setItem('void', 'test1')\<close> and \<open>setItem('void', 'test2')\<close>, issued one after the other
  without waiting, both end in a \<open>ConstraintError\<close>, and the \<open>getItem('void')\<close> issued
  after both have settled emits \<open>null\<close>, not \<open>test2\<close>.
\<close>

theorem two_writes_fail_on_foreign_undefined:
  "notifications (steps new_LocalStorageDatabase
        [Call 1 (SetItem ''void'' (JStr ''test1'')), Call 2 (SetItem ''void'' (JStr ''test2'')),
         Serve, Serve, Call 3 (GetItem ''void''), Serve]
        (step new_LocalStorageDatabase (OpenEvent Success) booted))
      = [(1, Errors (DOMException ''ConstraintError'' ''Key already exists in the object store'')),
         (2, Errors (DOMException ''ConstraintError'' ''Key already exists in the object store'')),
         (3, Emits JNull)]"
  by (simp add: steps_def booted_def boot_def new_IndexedDBDatabase_def connect_def example_world_def
      older_store_def on_open_event_def IndexedDBDatabase_setItem_def IndexedDBDatabase_getItem_def
      subscribe_def requestEventsAndMapTo_def getKeyRequest_def getItem_value_def)

text \<open>
  C4, amended. Last write wins. On the embedded-database backend, in every store but the
  one in which \<open>setItem\<close> fails (an engine without \<open>getKey\<close> holding the record
  \<open>undefined\<close> under the key): \<open>setItem(key, v1)\<close> and then \<open>setItem(key, v2)\<close>, with
  \<open>v1\<close> and \<open>v2\<close> neither \<open>null\<close> nor \<open>undefined\<close> and any number \<open>n\<close> of transactions
  served in between (\<open>n = 0\<close>: the caller did not wait for the first; \<open>n > 0\<close>: it did),
  both emit \<open>true\<close>, and the \<open>getItem(key)\<close> issued after both have settled emits \<open>v2\<close>;
  the same holds when both writes are issued before the connection is registered. On a
  backend in fallback mode on \<open>localStorage\<close> the same holds for every serializable \<open>v2\<close>
  (built from \<open>null\<close>, booleans, integers that a double holds exactly, strings of 8-bit
  characters, arrays, and objects with distinct property names).
\<close>

theorem last_write_wins:
  "(fallback (backend s) = None \<and> database (backend s) = Opened \<and> transactions s = []
      \<and> v1 \<noteq> JNull \<and> v1 \<noteq> JUndefined \<and> v2 \<noteq> JNull \<and> v2 \<noteq> JUndefined
      \<and> (has_getKey (store_api (env s)) \<or> map_of (objectStore (env s)) key \<noteq> Some JUndefined)
    \<longrightarrow> notifications (steps mk ([Call t1 (SetItem key v1)] @ replicate n Serve
            @ [Call t2 (SetItem key v2), Serve, Serve, Call t3 (GetItem key), Serve]) s)
        = notifications s @ [(t1, Emits (JBool True)), (t2, Emits (JBool True)), (t3, Emits v2)])
   \<and> (fallback (backend s) = None \<and> database (backend s) = Opening \<and> listener s = Some p
      \<and> subscribers s = [] \<and> transactions s = []
      \<and> v1 \<noteq> JNull \<and> v1 \<noteq> JUndefined \<and> v2 \<noteq> JNull \<and> v2 \<noteq> JUndefined
      \<and> (has_getKey (store_api (env s)) \<or> map_of (objectStore (env s)) key \<noteq> Some JUndefined)
    \<longrightarrow> notifications (steps mk [Call t1 (SetItem key v1), Call t2 (SetItem key v2),
            OpenEvent Success, Serve, Serve, Call t3 (GetItem key), Serve] s)
        = notifications s @ [(t1, Emits (JBool True)), (t2, Emits (JBool True)), (t3, Emits v2)])
   \<and> (fallback (backend s) = Some (new_LocalStorageDatabase prefix) \<and> transactions s = []
      \<and> serializable v2
    \<longrightarrow> notifications (steps mk ([Call t1 (SetItem key v1)] @ replicate n Serve
            @ [Call t2 (SetItem key v2), Serve, Serve, Call t3 (GetItem key), Serve]) s)
        = notifications s @ [(t1, Emits (JBool True)), (t2, Emits (JBool True)), (t3, Emits v2)])"
proof -
  let ?writes = "[Call t1 (SetItem key v1)] @ replicate n Serve @ [Call t2 (SetItem key v2), Serve, Serve]"
  let ?read = "[Call t3 (GetItem key), Serve]"
  have split: "[Call t1 (SetItem key v1)] @ replicate n Serve
      @ [Call t2 (SetItem key v2), Serve, Serve, Call t3 (GetItem key), Serve] = ?writes @ ?read"
    by simp
  have primary: "notifications (steps mk (?writes @ ?read) s)
        = notifications s @ [(t1, Emits (JBool True)), (t2, Emits (JBool True)), (t3, Emits v2)]"
    if prim: "fallback (backend s) = None" "database (backend s) = Opened" "transactions s = []"
      and vals: "v1 \<noteq> JNull" "v1 \<noteq> JUndefined" "v2 \<noteq> JNull" "v2 \<noteq> JUndefined"
      and ok: "has_getKey (store_api (env s)) \<or> map_of (objectStore (env s)) key \<noteq> Some JUndefined"
  proof -
    define s2 where "s2 = steps mk ?writes s"
    have s2: "s2 = s\<lparr>notifications := notifications s @ [(t1, Emits (JBool True)), (t2, Emits (JBool True))],
      env := (env s)\<lparr>objectStore :=
        AList.update key (JObj [(dataPath, v2)]) (AList.update key (JObj [(dataPath, v1)]) (objectStore (env s)))\<rparr>\<rparr>"
      unfolding s2_def by (rule two_writes_primary [OF prim vals ok])
    have "notifications (steps mk ?read s2) = notifications s2 @
        [(t3, Emits (getItem_value (case map_of (objectStore (env s2)) key of Some r \<Rightarrow> r | None \<Rightarrow> JUndefined)))]"
      by (rule read_primary) (simp_all add: s2 prim)
    moreover have "steps mk (?writes @ ?read) s = steps mk ?read s2"
      by (simp only: steps_append s2_def)
    ultimately show ?thesis
      using vals by (simp add: s2 map_of_update_same getItem_value_wrapper)
  qed
  have early: "notifications (steps mk ([Call t1 (SetItem key v1), Call t2 (SetItem key v2),
            OpenEvent Success, Serve, Serve] @ ?read) s)
        = notifications s @ [(t1, Emits (JBool True)), (t2, Emits (JBool True)), (t3, Emits v2)]"
    if prim: "fallback (backend s) = None" "database (backend s) = Opening" "listener s = Some p"
      "subscribers s = []" "transactions s = []"
      and vals: "v1 \<noteq> JNull" "v1 \<noteq> JUndefined" "v2 \<noteq> JNull" "v2 \<noteq> JUndefined"
      and ok: "has_getKey (store_api (env s)) \<or> map_of (objectStore (env s)) key \<noteq> Some JUndefined"
  proof -
    define s2 where "s2 = steps mk [Call t1 (SetItem key v1), Call t2 (SetItem key v2), OpenEvent Success, Serve, Serve] s"
    have s2: "s2 = s\<lparr>backend := (backend s)\<lparr>database := Opened\<rparr>, listener := None,
      subscribers := [], transactions := [],
      notifications := notifications s @ [(t1, Emits (JBool True)), (t2, Emits (JBool True))],
      env := (env s)\<lparr>objectStore :=
        AList.update key (JObj [(dataPath, v2)]) (AList.update key (JObj [(dataPath, v1)]) (objectStore (env s)))\<rparr>\<rparr>"
      unfolding s2_def by (rule two_writes_opening [OF prim vals ok])
    have "notifications (steps mk ?read s2) = notifications s2 @
        [(t3, Emits (getItem_value (case map_of (objectStore (env s2)) key of Some r \<Rightarrow> r | None \<Rightarrow> JUndefined)))]"
      by (rule read_primary) (simp_all add: s2 prim)
    moreover have "steps mk ([Call t1 (SetItem key v1), Call t2 (SetItem key v2),
            OpenEvent Success, Serve, Serve] @ ?read) s = steps mk ?read s2"
      by (simp only: steps_append s2_def)
    ultimately show ?thesis
      using vals by (simp add: s2 map_of_update_same getItem_value_wrapper)
  qed
  have fallen: "notifications (steps mk (?writes @ ?read) s)
        = notifications s @ [(t1, Emits (JBool True)), (t2, Emits (JBool True)), (t3, Emits v2)]"
    if fb: "fallback (backend s) = Some (new_LocalStorageDatabase prefix)" and idle: "transactions s = []"
      and sv: "serializable v2"
  proof -
    define s2 where "s2 = steps mk ?writes s"
    have s2: "s2 = s\<lparr>notifications := notifications s @ [(t1, Emits (JBool True)), (t2, Emits (JBool True))],
      env := (env s)\<lparr>localStorage :=
        AList.update key (to_String (JSON_stringify v2))
          (AList.update key (to_String (JSON_stringify v1)) (localStorage (env s)))\<rparr>\<rparr>"
      unfolding s2_def by (rule two_writes_localStorage [OF fb idle])
    have written: "to_String (JSON_stringify v2) = ser v2"
      using serializable_not_undefined [OF sv] by (simp add: JSON_stringify_def to_String_def)
    have "notifications (steps mk ?read s2) = notifications s2 @ [(t3, Emits v2)]"
    proof (rule read_localStorage)
      show "fallback (backend s2) = Some (new_LocalStorageDatabase prefix)" by (simp add: s2 fb)
      show "transactions s2 = []" by (simp add: s2 idle)
      show "map_of (localStorage (env s2)) key = Some (ser v2)"
        by (simp add: s2 written map_of_update_same)
      show "JSON_parse (ser v2) = Some v2" by (rule JSON_parse_ser [OF sv])
    qed
    moreover have "steps mk (?writes @ ?read) s = steps mk ?read s2"
      by (simp only: steps_append s2_def)
    ultimately show ?thesis
      by (simp add: s2)
  qed
  show ?thesis
    unfolding split using primary early fallen by simp
qed

theorem last_write_wins_witness:
  "notifications (steps new_LocalStorageDatabase
        [Call 1 (SetItem ''index'' (JStr ''test1'')), Call 2 (SetItem ''index'' (JStr ''test2'')),
         OpenEvent Success, Serve, Serve, Call 3 (GetItem ''index''), Serve] booted)
      = [(1, Emits (JBool True)), (2, Emits (JBool True)), (3, Emits (JStr ''test2''))]
   \<and> notifications (steps new_LocalStorageDatabase
        ([Call 1 (SetItem ''index'' (JStr ''test1''))] @ replicate 0 Serve
          @ [Call 2 (SetItem ''index'' (JStr ''test2'')), Serve, Serve, Call 3 (GetItem ''index''), Serve])
        (step new_LocalStorageDatabase (OpenEvent Success) booted))
      = [(1, Emits (JBool True)), (2, Emits (JBool True)), (3, Emits (JStr ''test2''))]
   \<and> notifications (steps new_LocalStorageDatabase
        ([Call 1 (SetItem ''index'' (JStr ''test1''))] @ replicate 0 Serve
          @ [Call 2 (SetItem ''index'' (JStr ''test2'')), Serve, Serve, Call 3 (GetItem ''index''), Serve])
        booted_private)
      = [(1, Emits (JBool True)), (2, Emits (JBool True)), (3, Emits (JStr ''test2''))]"
proof -
  have b: "fallback (backend booted) = None \<and> database (backend booted) = Opening
      \<and> listener booted = Some None \<and> subscribers booted = [] \<and> transactions booted = []
      \<and> notifications booted = []
      \<and> map_of (objectStore (env booted)) ''index'' \<noteq> Some JUndefined"
    by (simp add: booted_def boot_def new_IndexedDBDatabase_def connect_def example_world_def)
  have o: "fallback (backend (step new_LocalStorageDatabase (OpenEvent Success) booted)) = None
      \<and> database (backend (step new_LocalStorageDatabase (OpenEvent Success) booted)) = Opened
      \<and> transactions (step new_LocalStorageDatabase (OpenEvent Success) booted) = []
      \<and> notifications (step new_LocalStorageDatabase (OpenEvent Success) booted) = []
      \<and> map_of (objectStore (env (step new_LocalStorageDatabase (OpenEvent Success) booted))) ''index'' \<noteq> Some JUndefined"
    by (simp add: booted_def boot_def new_IndexedDBDatabase_def connect_def example_world_def
        on_open_event_def)
  have p: "fallback (backend booted_private) = Some (new_LocalStorageDatabase None)
      \<and> transactions booted_private = [] \<and> notifications booted_private = []
      \<and> serializable (JStr ''test2'')"
    by (simp add: booted_private_def boot_def new_IndexedDBDatabase_def connect_def private_world_def
        setFallback_def)
  show ?thesis
    using
      last_write_wins [where s = booted and mk = new_LocalStorageDatabase and p = None
        and ?v1.0 = "JStr ''test1''" and ?v2.0 = "JStr ''test2''" and key = "''index''"
        and ?t1.0 = 1 and ?t2.0 = 2 and ?t3.0 = 3 and n = 0 and prefix = None]
      last_write_wins [where s = "step new_LocalStorageDatabase (OpenEvent Success) booted"
        and mk = new_LocalStorageDatabase and p = None
        and ?v1.0 = "JStr ''test1''" and ?v2.0 = "JStr ''test2''" and key = "''index''"
        and ?t1.0 = 1 and ?t2.0 = 2 and ?t3.0 = 3 and n = 0 and prefix = None]
      last_write_wins [where s = booted_private and mk = new_LocalStorageDatabase and p = None
        and ?v1.0 = "JStr ''test1''" and ?v2.0 = "JStr ''test2''" and key = "''index''"
        and ?t1.0 = 1 and ?t2.0 = 2 and ?t3.0 = 3 and n = 0 and prefix = None]
      b o p
    by (simp del: step.simps)
qed

text \<open>
  C7. Reading through the service with a schema. Whatever the backend emits that is not
  \<open>null\<close> goes to the validator: if the validator rejects it, \<open>getItem\<close> fails with the
  error whose message is \<open>JSON invalid\<close>; if it accepts it, \<open>getItem\<close> emits the value
  unchanged. For a key the store does not hold the backend emits \<open>null\<close> and the service
  emits \<open>null\<close>, whatever the validator would have said (it is any function here, also
  one that rejects everything).
\<close>

theorem getItem_with_schema:
  "(fst (settle self (IndexedDBDatabase_getItem self key w)) = Emits data \<and> data \<noteq> JNull
      \<and> validate data schema = Invalid
    \<longrightarrow> LocalStorage_getItem validate (Some schema) (fst (settle self (IndexedDBDatabase_getItem self key w)))
        = Errors (Error ''JSON invalid''))
   \<and> (fst (settle self (IndexedDBDatabase_getItem self key w)) = Emits data \<and> validate data schema = Valid
    \<longrightarrow> LocalStorage_getItem validate (Some schema) (fst (settle self (IndexedDBDatabase_getItem self key w)))
        = Emits data)
   \<and> (fallback self = None \<and> database self = Opened \<and> map_of (objectStore w) key = None
    \<longrightarrow> LocalStorage_getItem validate (Some schema) (fst (settle self (IndexedDBDatabase_getItem self key w)))
        = Emits JNull)
   \<and> (fallback self = Some (new_LocalStorageDatabase prefix) \<and> map_of (localStorage w) key = None
    \<longrightarrow> LocalStorage_getItem validate (Some schema) (fst (settle self (IndexedDBDatabase_getItem self key w)))
        = Emits JNull)"
proof -
  have absent1: "fst (settle self (IndexedDBDatabase_getItem self key w)) = Emits JNull"
    if "fallback self = None" "database self = Opened" "map_of (objectStore w) key = None"
    using that by (simp add: settle_getItem_primary getItem_value_def)
  have absent2: "fst (settle self (IndexedDBDatabase_getItem self key w)) = Emits JNull"
    if "fallback self = Some (new_LocalStorageDatabase prefix)" "map_of (localStorage w) key = None"
    using that by (simp add: fallen_getItem settle_on_localStorage getItem_localStorage)
  show ?thesis
    using absent1 absent2 by (auto simp: LocalStorage_getItem_def)
qed

theorem getItem_with_schema_witness:
  "LocalStorage_getItem requires_string (Some ''expected'')
      (fst (settle primary_backend (IndexedDBDatabase_getItem primary_backend ''index'' schema_world)))
      = Errors (Error ''JSON invalid'')
   \<and> LocalStorage_getItem requires_string (Some ''expected'')
      (fst (settle primary_backend (IndexedDBDatabase_getItem primary_backend ''good'' schema_world)))
      = Emits (JObj [(''expected'', JStr ''value'')])
   \<and> LocalStorage_getItem requires_string (Some ''expected'')
      (fst (settle primary_backend (IndexedDBDatabase_getItem primary_backend ''notexisting'' schema_world)))
      = Emits JNull
   \<and> LocalStorage_getItem requires_string (Some ''expected'')
      (fst (settle fallen_backend (IndexedDBDatabase_getItem fallen_backend ''notexisting'' schema_world)))
      = Emits JNull"
proof -
  have bad: "fst (settle primary_backend (IndexedDBDatabase_getItem primary_backend ''index'' schema_world))
      = Emits (JObj [(''unexpected'', JStr ''value'')])"
    by (simp add: settle_getItem_primary primary_backend_def schema_world_def getItem_value_shapes)
  have good: "fst (settle primary_backend (IndexedDBDatabase_getItem primary_backend ''good'' schema_world))
      = Emits (JObj [(''expected'', JStr ''value'')])"
    by (simp add: settle_getItem_primary primary_backend_def schema_world_def getItem_value_shapes)
  have v1: "requires_string (JObj [(''unexpected'', JStr ''value'')]) ''expected'' = Invalid"
    by (simp add: requires_string_def)
  have v2: "requires_string (JObj [(''expected'', JStr ''value'')]) ''expected'' = Valid"
    by (simp add: requires_string_def)
  have p: "fallback primary_backend = None \<and> database primary_backend = Opened
      \<and> map_of (objectStore schema_world) ''notexisting'' = None
      \<and> fallback fallen_backend = Some (new_LocalStorageDatabase None)
      \<and> map_of (localStorage schema_world) ''notexisting'' = None"
    by (simp add: primary_backend_def fallen_backend_def schema_world_def)
  show ?thesis
    using
      getItem_with_schema [where self = primary_backend and key = "''index''" and w = schema_world
        and data = "JObj [(''unexpected'', JStr ''value'')]" and validate = requires_string
        and schema = "''expected''" and prefix = None]
      getItem_with_schema [where self = primary_backend and key = "''good''" and w = schema_world
        and data = "JObj [(''expected'', JStr ''value'')]" and validate = requires_string
        and schema = "''expected''" and prefix = None]
      getItem_with_schema [where self = primary_backend and key = "''notexisting''" and w = schema_world
        and data = JNull and validate = requires_string
        and schema = "''expected''" and prefix = None]
      getItem_with_schema [where self = fallen_backend and key = "''notexisting''" and w = schema_world
        and data = JNull and validate = requires_string
        and schema = "''expected''" and prefix = None]
      bad good v1 v2 p
    by simp
qed


end
